theory Spec2Isabelle
  imports Complex_Main "HOL-Library.Log_Nat"
begin

section \<open>The heightfield water simulation of sketch.js\<close>

text \<open>
  The sketch keeps its simulation state in global variables (lines 11-12 and 18-22 of
  sketch.js): the grid dimensions, the two buffers, the damping factor and the angle pair
  of the last impulse. They are the fields of the record below; the remaining globals of
  the sketch (rotation, time, flags, audio context) are the extension part of the record
  scheme, and every function of this theory is defined over the scheme.

  Numbers. A JavaScript number is an IEEE-754 binary64 value. Cell values are idealised
  as reals here, so the rounding of the sums and products of cell values is not part of
  the model. Dimensions and indices are integers (\<open>int\<close>). Wherever the code
  takes a \<open>floor\<close>, a rounding error can change the index that comes out, so
  there the arithmetic of binary64 is written out (function \<open>fl\<close> below): in
  the conversion of an angle to an index and in the interpolation of a drag path. An
  angle is the binary64 value that the caller passes.

  Arrays. A buffer is an array of columns, each column an array of numbers: a list of
  lists, indexed \<open>[col][row]\<close>. An access outside an array does not stay inside
  the reals: JavaScript throws a TypeError when the column is missing, reads
  \<open>undefined\<close> (and computes NaN) when the cell is missing, and grows the array
  when it writes beyond its end. Each of these is an \<open>error\<close> of the model, which
  stops there. In a well-shaped grid a simulation step never gets there, and with at
  least three rows neither does the centre write and neighbour loop of an impulse at a
  column index inside the grid.
\<close>

type_synonym grid = "real list list"

record globals =
  heightfieldCols :: int
  heightfieldRows :: int
  heightfieldCurrent :: grid
  heightfieldPrevious :: grid
  damping :: real
  lastDrawTheta :: real
  lastDrawPhi :: real

datatype error =
    TypeError       \<comment> \<open>property access on \<open>undefined\<close>: no such column\<close>
  | UndefinedCell   \<comment> \<open>read outside a column: \<open>undefined\<close>, NaN in arithmetic\<close>
  | ArrayGrowth     \<comment> \<open>write outside a column: the array would be extended\<close>

text \<open>
  The outcome of a function that mutates the globals: it returns, or it throws and leaves
  the globals as they are at that moment (nothing is rolled back).
\<close>

datatype 's outcome = Done 's | Threw error 's

fun state_of :: "'s outcome \<Rightarrow> 's" where
  "state_of (Done s) = s"
| "state_of (Threw e s) = s"

fun returned :: "'s outcome \<Rightarrow> bool" where
  "returned (Done s) = True"
| "returned (Threw e s) = False"

definition bindE :: "'e + 'a \<Rightarrow> ('a \<Rightarrow> 'e + 'b) \<Rightarrow> 'e + 'b" where
  "bindE m f = (case m of Inl e \<Rightarrow> Inl e | Inr x \<Rightarrow> f x)"

subsection \<open>Library functions used by the sketch\<close>

text \<open>
  \<open>a % b\<close> of JavaScript on integers: the remainder of the truncating division,
  with the sign of the dividend. For \<open>b = 0\<close> JavaScript yields NaN, and an array
  indexed with NaN gives \<open>undefined\<close>; the model returns \<open>-1\<close> there, an
  index that no array has either.
\<close>

definition jsRem :: "int \<Rightarrow> int \<Rightarrow> int" where
  "jsRem a b = (if b = 0 then - 1 else sgn a * (\<bar>a\<bar> mod \<bar>b\<bar>))"

text \<open>p5's \<open>constrain(n, low, high)\<close> is \<open>Math.max(Math.min(n, high), low)\<close>.\<close>

definition constrain :: "int \<Rightarrow> int \<Rightarrow> int \<Rightarrow> int" where
  "constrain n low high = max (min n high) low"

subsection \<open>Array access\<close>

definition readCell :: "grid \<Rightarrow> int \<Rightarrow> int \<Rightarrow> error + real" where
  "readCell g i j =
     (if i < 0 \<or> int (length g) \<le> i then Inl TypeError
      else if j < 0 \<or> int (length (g ! nat i)) \<le> j then Inl UndefinedCell
      else Inr (g ! nat i ! nat j))"

definition writeCell :: "grid \<Rightarrow> int \<Rightarrow> int \<Rightarrow> real \<Rightarrow> error + grid" where
  "writeCell g i j v =
     (if i < 0 \<or> int (length g) \<le> i then Inl TypeError
      else if j < 0 \<or> int (length (g ! nat i)) \<le> j then Inl ArrayGrowth
      else Inr (g[nat i := (g ! nat i)[nat j := v]]))"

definition zeroGrid :: "int \<Rightarrow> int \<Rightarrow> grid" where
  "zeroGrid cols rows = replicate (nat cols) (replicate (nat rows) 0)"

subsection \<open>updateHeightfield (lines 336-374)\<close>

text \<open>
  The body of the inner loop (lines 351-367): the eight neighbours are read from the
  previous buffer in the order of the source, the cell itself from the current buffer.
\<close>

definition waveCell :: "'a globals_scheme \<Rightarrow> int \<Rightarrow> int \<Rightarrow> error + real" where
  "waveCell s i j =
     (let cols = heightfieldCols s;
          iPrev = jsRem (i - 1 + cols) cols;
          iNext = jsRem (i + 1) cols;
          P = heightfieldPrevious s
      in bindE (readCell P iPrev j) (\<lambda>a.
         bindE (readCell P iNext j) (\<lambda>b.
         bindE (readCell P i (j - 1)) (\<lambda>c.
         bindE (readCell P i (j + 1)) (\<lambda>d.
         bindE (readCell P iPrev (j - 1)) (\<lambda>e.
         bindE (readCell P iPrev (j + 1)) (\<lambda>f.
         bindE (readCell P iNext (j - 1)) (\<lambda>g.
         bindE (readCell P iNext (j + 1)) (\<lambda>h.
         bindE (readCell (heightfieldCurrent s) i j) (\<lambda>cur.
         Inr (((a + b + c + d + e + f + g + h) / 8 - cur) * damping s)))))))))))"

text \<open>The loop over \<open>j\<close> (line 349) and the loop over \<open>i\<close> (line 348).\<close>

fun rowLoop :: "'a globals_scheme \<Rightarrow> int \<Rightarrow> int list \<Rightarrow> grid \<Rightarrow> error + grid" where
  "rowLoop s i [] new = Inr new"
| "rowLoop s i (j # js) new =
     bindE (waveCell s i j) (\<lambda>v.
     bindE (writeCell new i j v) (\<lambda>new'. rowLoop s i js new'))"

fun colLoop :: "'a globals_scheme \<Rightarrow> int list \<Rightarrow> grid \<Rightarrow> error + grid" where
  "colLoop s [] new = Inr new"
| "colLoop s (i # is) new =
     bindE (rowLoop s i [1 .. heightfieldRows s - 2] new) (\<lambda>new'. colLoop s is new')"

text \<open>
  The new buffer is filled with zeros first (lines 339-345), the interior rows are
  computed, and the buffers change roles (lines 372-373). The new buffer is local, so a
  throw inside the loops leaves the globals untouched.
\<close>

definition updateHeightfield :: "'a globals_scheme \<Rightarrow> 'a globals_scheme outcome" where
  "updateHeightfield s =
     (case colLoop s [0 .. heightfieldCols s - 1]
             (zeroGrid (heightfieldCols s) (heightfieldRows s)) of
        Inl e \<Rightarrow> Threw e s
      | Inr new \<Rightarrow>
          Done (s\<lparr>heightfieldPrevious := heightfieldCurrent s, heightfieldCurrent := new\<rparr>))"

text \<open>A grid has the shape \<open>cols \<times> rows\<close>.\<close>

definition shaped :: "int \<Rightarrow> int \<Rightarrow> grid \<Rightarrow> bool" where
  "shaped cols rows g \<longleftrightarrow>
     int (length g) = cols \<and> list_all (\<lambda>c. int (length c) = rows) g"

definition wellShaped :: "'a globals_scheme \<Rightarrow> bool" where
  "wellShaped s \<longleftrightarrow>
     shaped (heightfieldCols s) (heightfieldRows s) (heightfieldCurrent s) \<and>
     shaped (heightfieldCols s) (heightfieldRows s) (heightfieldPrevious s)"

subsection \<open>Rounding to binary64\<close>

text \<open>
  Round to nearest, ties to even, as every arithmetic operation of JavaScript rounds its
  exact result. \<open>expo x\<close> is the binary exponent of \<open>x\<close>; below \<open>2 powi -1022\<close>
  the spacing of the representable numbers stays \<open>2 powi -1074\<close> (subnormal numbers).
  Overflow to Infinity is not modelled: the function returns the rounded finite value.
\<close>

definition roundTiesToEven :: "real \<Rightarrow> int" where
  "roundTiesToEven x =
     (let n = \<lfloor>x\<rfloor>; d = x - of_int n
      in if d < 1 / 2 then n else if 1 / 2 < d then n + 1 else if even n then n else n + 1)"

definition expo :: "real \<Rightarrow> int" where
  "expo x = bitlen \<lfloor>\<bar>x\<bar> * 2 ^ 1074\<rfloor> - 1075"

definition fl :: "real \<Rightarrow> real" where
  "fl x = (let u = 2 powi (max (expo x) (- 1022) - 52)
           in of_int (roundTiesToEven (x / u)) * u)"

text \<open>p5's \<open>lerp(start, stop, amt)\<close> is \<open>amt * (stop - start) + start\<close>.\<close>

definition lerp :: "real \<Rightarrow> real \<Rightarrow> real \<Rightarrow> real" where
  "lerp start stop amt = fl (fl (amt * fl (stop - start)) + start)"

subsection \<open>addHeightfieldImpulse (lines 492-557)\<close>

text \<open>
  The conversion of an angle pair to indices is written out twice in the function (lines
  494-500 for the target, lines 509-514 for the last position), and with the row clamped
  into \<open>[0, rows - 1]\<close> in the drawing code (lines 149-155, 283-287, 315-319).
  \<open>wrapTheta\<close> is the pair of \<open>if\<close> statements that follows each \<open>floor\<close>.
\<close>

text \<open>
  p5's constants \<open>PI\<close> (\<open>Math.PI\<close>, the binary64 number next to
  \<open>\<pi>\<close>) and \<open>TWO_PI\<close> (\<open>Math.PI * 2\<close>, which is exact).
\<close>

definition PI :: real where
  "PI = 884279719003555 / 2 ^ 48"

definition TWO_PI :: real where
  "TWO_PI = 2 * PI"

definition wrapTheta :: "int \<Rightarrow> int \<Rightarrow> int" where
  "wrapTheta cols k =
     (let k1 = (if k < 0 then k + cols else k)
      in if cols \<le> k1 then k1 - cols else k1)"

text \<open>
  \<open>floor((theta / TWO_PI) * heightfieldCols)\<close> and
  \<open>floor((phi / PI) * heightfieldRows)\<close>: a division and a multiplication, each
  rounded.
\<close>

definition thetaFloor :: "int \<Rightarrow> real \<Rightarrow> int" where
  "thetaFloor cols theta = \<lfloor>fl (fl (theta / TWO_PI) * of_int cols)\<rfloor>"

definition phiFloor :: "int \<Rightarrow> real \<Rightarrow> int" where
  "phiFloor rows phi = \<lfloor>fl (fl (phi / PI) * of_int rows)\<rfloor>"

definition thetaToIndex :: "int \<Rightarrow> real \<Rightarrow> int" where
  "thetaToIndex cols theta = wrapTheta cols (thetaFloor cols theta)"

definition phiToIndex :: "int \<Rightarrow> real \<Rightarrow> int" where
  "phiToIndex rows phi = constrain (phiFloor rows phi) 1 (rows - 2)"

definition phiToIndexDraw :: "int \<Rightarrow> real \<Rightarrow> int" where
  "phiToIndexDraw rows phi = constrain (phiFloor rows phi) 0 (rows - 1)"

text \<open>
  The two nested loops over \<open>di\<close> and \<open>dj\<close> (lines 530-537 and 544-551) visit
  the offsets in this order; the neighbour is computed before the centre is skipped.
\<close>

definition offsets :: "(int \<times> int) list" where
  "offsets = [(- 1, - 1), (- 1, 0), (- 1, 1), (0, - 1), (0, 0), (0, 1), (1, - 1), (1, 0), (1, 1)]"

fun neighbourLoop ::
  "int \<Rightarrow> int \<Rightarrow> real \<Rightarrow> (int \<times> int) list \<Rightarrow> 'a globals_scheme \<Rightarrow> 'a globals_scheme outcome" where
  "neighbourLoop ti pj v [] s = Done s"
| "neighbourLoop ti pj v ((di, dj) # ds) s =
     (let nti = jsRem (ti + di + heightfieldCols s) (heightfieldCols s);
          npj = constrain (pj + dj) 1 (heightfieldRows s - 2)
      in if di = 0 \<and> dj = 0 then neighbourLoop ti pj v ds s
         else (case writeCell (heightfieldPrevious s) nti npj v of
                 Inl e \<Rightarrow> Threw e s
               | Inr P \<Rightarrow> neighbourLoop ti pj v ds (s\<lparr>heightfieldPrevious := P\<rparr>)))"

text \<open>
  A centre write followed by the neighbour loop: lines 541-551 with the factor 0.7, lines
  527-537 with the factor 0.6.
\<close>

definition stamp ::
  "real \<Rightarrow> real \<Rightarrow> int \<Rightarrow> int \<Rightarrow> 'a globals_scheme \<Rightarrow> 'a globals_scheme outcome" where
  "stamp strength falloff ti pj s =
     (case writeCell (heightfieldPrevious s) ti pj strength of
        Inl e \<Rightarrow> Threw e s
      | Inr P \<Rightarrow> neighbourLoop ti pj (strength * falloff) offsets (s\<lparr>heightfieldPrevious := P\<rparr>))"

text \<open>The cell of step \<open>k\<close> of a drag path (lines 519-525).\<close>

definition pathCell :: "int \<Rightarrow> int \<Rightarrow> int \<Rightarrow> int \<Rightarrow> int \<Rightarrow> int \<Rightarrow> int \<Rightarrow> int \<Rightarrow> int \<times> int" where
  "pathCell cols rows lastThetaIndex lastPhiIndex thetaIndex phiIndex steps k =
     (let t = fl (of_int k / of_int (max steps 1));
          ti = \<lfloor>lerp (of_int lastThetaIndex) (of_int thetaIndex) t\<rfloor>;
          pj = \<lfloor>lerp (of_int lastPhiIndex) (of_int phiIndex) t\<rfloor>
      in (wrapTheta cols ti, constrain pj 1 (rows - 2)))"

fun pathLoop ::
  "real \<Rightarrow> int \<Rightarrow> int \<Rightarrow> int \<Rightarrow> int \<Rightarrow> int \<Rightarrow> int list \<Rightarrow> 'a globals_scheme \<Rightarrow> 'a globals_scheme outcome" where
  "pathLoop strength lastThetaIndex lastPhiIndex thetaIndex phiIndex steps [] s = Done s"
| "pathLoop strength lastThetaIndex lastPhiIndex thetaIndex phiIndex steps (k # ks) s =
     (case pathCell (heightfieldCols s) (heightfieldRows s)
             lastThetaIndex lastPhiIndex thetaIndex phiIndex steps k of
        (ti, pj) \<Rightarrow>
          (case stamp strength (6 / 10) ti pj s of
             Threw e s' \<Rightarrow> Threw e s'
           | Done s' \<Rightarrow> pathLoop strength lastThetaIndex lastPhiIndex thetaIndex phiIndex steps ks s'))"

definition impulseStrength :: real where
  "impulseStrength = 400"

definition addHeightfieldImpulse ::
  "real \<Rightarrow> real \<Rightarrow> bool \<Rightarrow> 'a globals_scheme \<Rightarrow> 'a globals_scheme outcome" where
  "addHeightfieldImpulse theta phi isFirstTouch s =
     (let cols = heightfieldCols s; rows = heightfieldRows s;
          thetaIndex = thetaToIndex cols theta;
          phiIndex = phiToIndex rows phi;
          r = (if \<not> isFirstTouch then
                 (let lastThetaIndex = thetaToIndex cols (lastDrawTheta s);
                      lastPhiIndex = phiToIndex rows (lastDrawPhi s);
                      steps = max \<bar>thetaIndex - lastThetaIndex\<bar> \<bar>phiIndex - lastPhiIndex\<bar>
                  in pathLoop impulseStrength lastThetaIndex lastPhiIndex thetaIndex phiIndex
                       steps [0 .. steps] s)
               else stamp impulseStrength (7 / 10) thetaIndex phiIndex s)
      in case r of
           Threw e s' \<Rightarrow> Threw e s'
         | Done s' \<Rightarrow> Done (s'\<lparr>lastDrawTheta := theta, lastDrawPhi := phi\<rparr>))"

subsection \<open>The declarations and setup (lines 11-12, 18-22, 37-45)\<close>

text \<open>
  The function \<open>setup\<close> of the sketch is \<open>setupSketch\<close> here, as the word
  is reserved in Isabelle.
\<close>

definition declared :: globals where
  "declared = \<lparr>heightfieldCols = 256, heightfieldRows = 128,
                heightfieldCurrent = [], heightfieldPrevious = [],
                damping = 985 / 1000, lastDrawTheta = 0, lastDrawPhi = 0\<rparr>"

text \<open>
  \<open>A[i] = column\<close> for an index that counts up from 0: the index is at most the
  length of the array, and the assignment replaces an element or appends one.
\<close>

definition putColumn :: "grid \<Rightarrow> int \<Rightarrow> real list \<Rightarrow> grid" where
  "putColumn A i c = (if nat i < length A then A[nat i := c] else A @ [c])"

fun setupLoop :: "int \<Rightarrow> int list \<Rightarrow> grid \<times> grid \<Rightarrow> grid \<times> grid" where
  "setupLoop rows [] (C, P) = (C, P)"
| "setupLoop rows (i # is) (C, P) =
     setupLoop rows is (putColumn C i (replicate (nat rows) 0),
                        putColumn P i (replicate (nat rows) 0))"

definition setupSketch :: "'a globals_scheme \<Rightarrow> 'a globals_scheme" where
  "setupSketch g =
     (case setupLoop (heightfieldRows g) [0 .. heightfieldCols g - 1]
             (heightfieldCurrent g, heightfieldPrevious g) of
        (C, P) \<Rightarrow> g\<lparr>heightfieldCurrent := C, heightfieldPrevious := P\<rparr>)"

subsection \<open>Runs\<close>

text \<open>
  A run is a sequence of frames (each calls \<open>updateHeightfield\<close>, line 61) and of
  impulses (each a call of \<open>addHeightfieldImpulse\<close>, line 483). An exception ends the
  handler that raised it and nothing else: the next event works on the globals as they
  are.
\<close>

datatype event = Step | Impulse real real bool

fun fire :: "event \<Rightarrow> 'a globals_scheme \<Rightarrow> 'a globals_scheme outcome" where
  "fire Step s = updateHeightfield s"
| "fire (Impulse theta phi isFirstTouch) s = addHeightfieldImpulse theta phi isFirstTouch s"

fun run :: "event list \<Rightarrow> 'a globals_scheme \<Rightarrow> 'a globals_scheme" where
  "run [] s = s"
| "run (ev # evs) s = run evs (state_of (fire ev s))"

abbreviation cell :: "grid \<Rightarrow> int \<Rightarrow> int \<Rightarrow> real" where
  "cell g i j \<equiv> g ! nat i ! nat j"

subsection \<open>Notions of the specification\<close>

text \<open>
  The neighbour sum as the specification writes it (section 4.3): the columns
  \<open>col - 1\<close> and \<open>col + 1\<close> are taken modulo \<open>cols\<close>, the rows
  \<open>row - 1\<close> and \<open>row + 1\<close> directly.
\<close>

definition neighborSum :: "int \<Rightarrow> grid \<Rightarrow> int \<Rightarrow> int \<Rightarrow> real" where
  "neighborSum cols P col row =
     cell P ((col - 1) mod cols) row + cell P ((col + 1) mod cols) row
     + cell P col (row - 1) + cell P col (row + 1)
     + cell P ((col - 1) mod cols) (row - 1) + cell P ((col - 1) mod cols) (row + 1)
     + cell P ((col + 1) mod cols) (row - 1) + cell P ((col + 1) mod cols) (row + 1)"

text \<open>The value that the inner loop of \<open>updateHeightfield\<close> computes when all its reads succeed.\<close>

definition waveValue :: "'a globals_scheme \<Rightarrow> int \<Rightarrow> int \<Rightarrow> real" where
  "waveValue s i j =
     (neighborSum (heightfieldCols s) (heightfieldPrevious s) i j / 8
      - cell (heightfieldCurrent s) i j) * damping s"

subsection \<open>Example states\<close>

text \<open>A 3 \<times> 3 grid with one interior row, used to run the functions on concrete input.\<close>

definition smallState :: globals where
  "smallState = \<lparr>heightfieldCols = 3, heightfieldRows = 3,
                   heightfieldCurrent = [[0, 1, 0], [0, 2, 0], [0, 3, 0]],
                   heightfieldPrevious = [[0, 4, 0], [0, 5, 0], [0, 6, 0]],
                   damping = 1 / 2, lastDrawTheta = 0, lastDrawPhi = 0\<rparr>"

subsection \<open>Invariants\<close>

text \<open>
  \<open>keepsEdges cols rows P P'\<close>: the grid \<open>P'\<close> has the shape
  \<open>cols \<times> rows\<close> and, when there are at least three rows, agrees with \<open>P\<close> on
  row \<open>0\<close> and on row \<open>rows - 1\<close>.
\<close>

definition keepsEdges :: "int \<Rightarrow> int \<Rightarrow> grid \<Rightarrow> grid \<Rightarrow> bool" where
  "keepsEdges cols rows P P' \<longleftrightarrow>
     shaped cols rows P' \<and>
     (3 \<le> rows \<longrightarrow>
        (\<forall>a. 0 \<le> a \<and> a < cols \<longrightarrow>
           cell P' a 0 = cell P a 0 \<and> cell P' a (rows - 1) = cell P a (rows - 1)))"

text \<open>Rows \<open>0\<close> and \<open>rows - 1\<close> of a grid hold 0.\<close>

definition edgesZero :: "int \<Rightarrow> int \<Rightarrow> grid \<Rightarrow> bool" where
  "edgesZero cols rows g \<longleftrightarrow>
     (\<forall>a. 0 \<le> a \<and> a < cols \<longrightarrow> cell g a 0 = 0 \<and> cell g a (rows - 1) = 0)"

text \<open>
  The invariant of the runs: at least three rows, both buffers of the shape
  \<open>cols \<times> rows\<close>, and 0 in rows \<open>0\<close> and \<open>rows - 1\<close> of both.
\<close>

definition gridInv :: "'a globals_scheme \<Rightarrow> bool" where
  "gridInv s \<longleftrightarrow>
     3 \<le> heightfieldRows s \<and> wellShaped s \<and>
     edgesZero (heightfieldCols s) (heightfieldRows s) (heightfieldCurrent s) \<and>
     edgesZero (heightfieldCols s) (heightfieldRows s) (heightfieldPrevious s)"

text \<open>
  A configuration is valid (sections 4.1, 4.3 and 7 of the specification): positive
  dimensions, at least three rows, damping in the open interval \<open>(0, 1)\<close>.
\<close>

definition validConfig :: "'a globals_scheme \<Rightarrow> bool" where
  "validConfig g \<longleftrightarrow>
     0 < heightfieldCols g \<and> 3 \<le> heightfieldRows g \<and> 0 < damping g \<and> damping g < 1"

text \<open>
  The simulation state proper: the fields of \<open>globals\<close> without the extension
  that stands for the other globals of the sketch.
\<close>

definition core :: "'a globals_scheme \<Rightarrow> globals" where
  "core s = \<lparr>heightfieldCols = heightfieldCols s, heightfieldRows = heightfieldRows s,
              heightfieldCurrent = heightfieldCurrent s,
              heightfieldPrevious = heightfieldPrevious s,
              damping = damping s, lastDrawTheta = lastDrawTheta s,
              lastDrawPhi = lastDrawPhi s\<rparr>"

text \<open>
  The neighbour loop around \<open>(ti, pj)\<close> writes the cell \<open>(a, b)\<close>: some offset
  other than \<open>(0, 0)\<close> leads to it after the wrap of the column and the clamp of the
  row.
\<close>

definition hit :: "int \<Rightarrow> int \<Rightarrow> int \<Rightarrow> int \<Rightarrow> (int \<times> int) list \<Rightarrow> int \<Rightarrow> int \<Rightarrow> bool" where
  "hit cols rows ti pj ds a b \<longleftrightarrow>
     (\<exists>(di, dj)\<in>set ds. \<not> (di = 0 \<and> dj = 0) \<and>
        a = (ti + di) mod cols \<and> b = constrain (pj + dj) 1 (rows - 2))"

text \<open>
  The total squared energy of a grid (section 8 of the specification): the sum of the
  squares of all its cells.
\<close>

definition gridEnergy :: "grid \<Rightarrow> real" where
  "gridEnergy g = sum_list (map (\<lambda>c. sum_list (map (\<lambda>x. x\<^sup>2) c)) g)"

text \<open>
  One column, five rows, the damping of the source: the previous buffer holds 1 and the
  current buffer -1 in the interior rows.
\<close>

definition waveState :: globals where
  "waveState = \<lparr>heightfieldCols = 1, heightfieldRows = 5,
                  heightfieldCurrent = [[0, - 1, - 1, - 1, 0]],
                  heightfieldPrevious = [[0, 1, 1, 1, 0]],
                  damping = 985 / 1000, lastDrawTheta = 0, lastDrawPhi = 0\<rparr>"

text \<open>
  An 8 \<times> 5 grid at rest, with damping 1 and the last angle pair as the sketch declares it.
\<close>

definition dragState :: globals where
  "dragState = \<lparr>heightfieldCols = 8, heightfieldRows = 5,
                  heightfieldCurrent = zeroGrid 8 5, heightfieldPrevious = zeroGrid 8 5,
                  damping = 1, lastDrawTheta = 0, lastDrawPhi = 0\<rparr>"





section \<open>Array access in a well-shaped grid\<close>

lemma jsRem_nonneg: "0 \<le> a \<Longrightarrow> 0 < b \<Longrightarrow> jsRem a b = a mod b"
  by (simp add: jsRem_def sgn_if)

lemma shaped_col_length:
  "shaped cols rows g \<Longrightarrow> 0 \<le> i \<Longrightarrow> i < cols \<Longrightarrow> int (length (g ! nat i)) = rows"
  by (auto simp: shaped_def list_all_length)

lemma readCell_shaped:
  "shaped cols rows g \<Longrightarrow> 0 \<le> i \<Longrightarrow> i < cols \<Longrightarrow> 0 \<le> j \<Longrightarrow> j < rows \<Longrightarrow>
   readCell g i j = Inr (cell g i j)"
  using shaped_col_length[of cols rows g i]
  by (auto simp: readCell_def shaped_def)

lemma writeCell_shaped:
  assumes "shaped cols rows g" "0 \<le> i" "i < cols" "0 \<le> j" "j < rows"
  shows "writeCell g i j v = Inr (g[nat i := (g ! nat i)[nat j := v]])"
  using shaped_col_length[OF assms(1-3)] assms
  by (auto simp: writeCell_def shaped_def)

lemma writeCell_InrD:
  assumes "shaped cols rows g" "writeCell g i j v = Inr g'"
  shows "0 \<le> i \<and> i < cols \<and> 0 \<le> j \<and> j < rows \<and> g' = g[nat i := (g ! nat i)[nat j := v]]"
proof -
  have i: "0 \<le> i" "i < cols"
    using assms by (auto simp: writeCell_def shaped_def split: if_splits)
  have "int (length (g ! nat i)) = rows" using shaped_col_length[OF assms(1) i] .
  then show ?thesis using assms(2) i by (auto simp: writeCell_def split: if_splits)
qed

lemma shaped_update:
  assumes "shaped cols rows g"
  shows "shaped cols rows (g[i := (g ! i)[j := v]])"
proof (cases "i < length g")
  case True
  then show ?thesis using assms
    by (auto simp: shaped_def list_all_length nth_list_update)
next
  case False
  then show ?thesis using assms by (simp add: list_update_beyond)
qed

lemma cell_update:
  assumes "shaped cols rows g" "0 \<le> i" "i < cols" "0 \<le> j" "j < rows"
    "0 \<le> a" "a < cols" "0 \<le> b" "b < rows"
  shows "cell (g[nat i := (g ! nat i)[nat j := v]]) a b = (if a = i \<and> b = j then v else cell g a b)"
proof -
  have len: "nat i < length g" "nat a < length g" using assms by (auto simp: shaped_def)
  have lj: "nat j < length (g ! nat i)" using shaped_col_length[OF assms(1-3)] assms by auto
  show ?thesis using len lj assms(2,4,6,8)
    by (auto simp: nth_list_update nat_eq_iff)
qed

lemma shaped_zeroGrid: "0 \<le> cols \<Longrightarrow> 0 \<le> rows \<or> cols = 0 \<Longrightarrow> shaped cols rows (zeroGrid cols rows)"
  by (auto simp: shaped_def zeroGrid_def list_all_length)

lemma cell_zeroGrid:
  "0 \<le> a \<Longrightarrow> a < cols \<Longrightarrow> 0 \<le> b \<Longrightarrow> b < rows \<Longrightarrow> cell (zeroGrid cols rows) a b = 0"
  by (simp add: zeroGrid_def)

lemma wellShaped_dims:
  assumes "wellShaped s"
  shows "0 \<le> heightfieldCols s" "0 \<le> heightfieldRows s \<or> heightfieldCols s = 0"
proof -
  have l: "int (length (heightfieldCurrent s)) = heightfieldCols s"
    and a: "\<forall>c\<in>set (heightfieldCurrent s). int (length c) = heightfieldRows s"
    using assms by (auto simp: wellShaped_def shaped_def list_all_iff)
  show "0 \<le> heightfieldCols s" using l by linarith
  show "0 \<le> heightfieldRows s \<or> heightfieldCols s = 0"
  proof (cases "heightfieldCurrent s")
    case Nil
    then show ?thesis using l by simp
  next
    case (Cons c cs)
    then have "int (length c) = heightfieldRows s" using a by simp
    then show ?thesis by linarith
  qed
qed

section \<open>One simulation step\<close>

lemma waveCell_shaped:
  assumes "wellShaped s" "0 \<le> i" "i < heightfieldCols s" "1 \<le> j" "j \<le> heightfieldRows s - 2"
  shows "waveCell s i j = Inr (waveValue s i j)"
proof -
  let ?c = "heightfieldCols s"
  have c: "0 < ?c" using assms by simp
  have p: "jsRem (i - 1 + ?c) ?c = (i - 1) mod ?c" using assms c by (simp add: jsRem_nonneg)
  have n: "jsRem (i + 1) ?c = (i + 1) mod ?c" using assms c by (simp add: jsRem_nonneg)
  have rp: "0 \<le> (i - 1) mod ?c" "(i - 1) mod ?c < ?c" using c by simp_all
  have rn: "0 \<le> (i + 1) mod ?c" "(i + 1) mod ?c < ?c" using c by simp_all
  have shP: "shaped ?c (heightfieldRows s) (heightfieldPrevious s)"
    and shC: "shaped ?c (heightfieldRows s) (heightfieldCurrent s)"
    using assms(1) by (simp_all add: wellShaped_def)
  show ?thesis
    unfolding waveCell_def Let_def p n
    using assms(2-5) rp rn
    by (simp add: readCell_shaped[OF shP] readCell_shaped[OF shC] bindE_def waveValue_def
        neighborSum_def)
qed

lemma rowLoop_run:
  assumes "shaped cols rows new" "0 \<le> i" "i < cols"
    "\<forall>j\<in>set js. 0 \<le> j \<and> j < rows" "\<forall>j\<in>set js. waveCell s i j = Inr (f j)"
  shows "\<exists>new'. rowLoop s i js new = Inr new' \<and> shaped cols rows new' \<and>
           (\<forall>a b. 0 \<le> a \<longrightarrow> a < cols \<longrightarrow> 0 \<le> b \<longrightarrow> b < rows \<longrightarrow>
              cell new' a b = (if a = i \<and> b \<in> set js then f b else cell new a b))"
  using assms
proof (induction js arbitrary: new)
  case Nil
  then show ?case by simp
next
  case (Cons j js)
  let ?n1 = "new[nat i := (new ! nat i)[nat j := f j]]"
  have j: "0 \<le> j" "j < rows" using Cons.prems(4) by auto
  have w: "writeCell new i j (f j) = Inr ?n1"
    using writeCell_shaped[OF Cons.prems(1-3) j] .
  have sh1: "shaped cols rows ?n1" using shaped_update[OF Cons.prems(1)] .
  from Cons.IH[OF sh1 Cons.prems(2,3)] Cons.prems(4,5)
  obtain new' where r: "rowLoop s i js ?n1 = Inr new'" and sh': "shaped cols rows new'"
    and c: "\<forall>a b. 0 \<le> a \<longrightarrow> a < cols \<longrightarrow> 0 \<le> b \<longrightarrow> b < rows \<longrightarrow>
              cell new' a b = (if a = i \<and> b \<in> set js then f b else cell ?n1 a b)"
    by auto
  have "rowLoop s i (j # js) new = Inr new'"
    using Cons.prems(5) w r by (simp add: bindE_def)
  moreover have "\<forall>a b. 0 \<le> a \<longrightarrow> a < cols \<longrightarrow> 0 \<le> b \<longrightarrow> b < rows \<longrightarrow>
              cell new' a b = (if a = i \<and> b \<in> set (j # js) then f b else cell new a b)"
    using c cell_update[OF Cons.prems(1-3) j] by auto
  ultimately show ?case using sh' by blast
qed

lemma colLoop_run:
  assumes "wellShaped s" "shaped (heightfieldCols s) (heightfieldRows s) new"
    "\<forall>i\<in>set is. 0 \<le> i \<and> i < heightfieldCols s"
  shows "\<exists>new'. colLoop s is new = Inr new' \<and> shaped (heightfieldCols s) (heightfieldRows s) new' \<and>
           (\<forall>a b. 0 \<le> a \<longrightarrow> a < heightfieldCols s \<longrightarrow> 0 \<le> b \<longrightarrow> b < heightfieldRows s \<longrightarrow>
              cell new' a b = (if a \<in> set is \<and> 1 \<le> b \<and> b \<le> heightfieldRows s - 2
                               then waveValue s a b else cell new a b))"
  using assms
proof (induction "is" arbitrary: new)
  case Nil
  then show ?case by simp
next
  case (Cons i "is")
  let ?cols = "heightfieldCols s" and ?rows = "heightfieldRows s"
  have i: "0 \<le> i" "i < ?cols" using Cons.prems(3) by auto
  have rng: "\<forall>j\<in>set [1 .. ?rows - 2]. 0 \<le> j \<and> j < ?rows" by auto
  have wv: "\<forall>j\<in>set [1 .. ?rows - 2]. waveCell s i j = Inr (waveValue s i j)"
    using waveCell_shaped[OF Cons.prems(1) i] by auto
  from rowLoop_run[OF Cons.prems(2) i rng wv]
  obtain n1 where r1: "rowLoop s i [1 .. ?rows - 2] new = Inr n1" and sh1: "shaped ?cols ?rows n1"
    and c1: "\<forall>a b. 0 \<le> a \<longrightarrow> a < ?cols \<longrightarrow> 0 \<le> b \<longrightarrow> b < ?rows \<longrightarrow>
              cell n1 a b = (if a = i \<and> b \<in> set [1 .. ?rows - 2] then waveValue s i b else cell new a b)"
    by blast
  from Cons.IH[OF Cons.prems(1) sh1] Cons.prems(3)
  obtain new' where r: "colLoop s is n1 = Inr new'" and sh': "shaped ?cols ?rows new'"
    and c: "\<forall>a b. 0 \<le> a \<longrightarrow> a < ?cols \<longrightarrow> 0 \<le> b \<longrightarrow> b < ?rows \<longrightarrow>
              cell new' a b = (if a \<in> set is \<and> 1 \<le> b \<and> b \<le> ?rows - 2
                               then waveValue s a b else cell n1 a b)"
    by auto
  have "colLoop s (i # is) new = Inr new'" using r1 r by (simp add: bindE_def)
  moreover have "\<forall>a b. 0 \<le> a \<longrightarrow> a < ?cols \<longrightarrow> 0 \<le> b \<longrightarrow> b < ?rows \<longrightarrow>
              cell new' a b = (if a \<in> set (i # is) \<and> 1 \<le> b \<and> b \<le> ?rows - 2
                               then waveValue s a b else cell new a b)"
    using c c1 by auto
  ultimately show ?case using sh' by blast
qed

text \<open>
  In a well-shaped state the step returns: the old current buffer is the new previous
  buffer, and the new current buffer holds the computed value in the interior rows and 0
  in rows \<open>0\<close> and \<open>rows - 1\<close>.
\<close>

lemma updateHeightfield_run:
  assumes "wellShaped s"
  shows "\<exists>new. updateHeightfield s =
            Done (s\<lparr>heightfieldPrevious := heightfieldCurrent s, heightfieldCurrent := new\<rparr>) \<and>
          shaped (heightfieldCols s) (heightfieldRows s) new \<and>
          (\<forall>a b. 0 \<le> a \<longrightarrow> a < heightfieldCols s \<longrightarrow> 0 \<le> b \<longrightarrow> b < heightfieldRows s \<longrightarrow>
             cell new a b = (if 1 \<le> b \<and> b \<le> heightfieldRows s - 2 then waveValue s a b else 0))"
proof -
  let ?cols = "heightfieldCols s" and ?rows = "heightfieldRows s"
  have z: "shaped ?cols ?rows (zeroGrid ?cols ?rows)"
    using wellShaped_dims[OF assms] by (intro shaped_zeroGrid) auto
  have rng: "\<forall>i\<in>set [0 .. ?cols - 1]. 0 \<le> i \<and> i < ?cols" by auto
  from colLoop_run[OF assms z rng]
  obtain new where r: "colLoop s [0 .. ?cols - 1] (zeroGrid ?cols ?rows) = Inr new"
    and sh: "shaped ?cols ?rows new"
    and c: "\<forall>a b. 0 \<le> a \<longrightarrow> a < ?cols \<longrightarrow> 0 \<le> b \<longrightarrow> b < ?rows \<longrightarrow>
              cell new a b = (if a \<in> set [0 .. ?cols - 1] \<and> 1 \<le> b \<and> b \<le> ?rows - 2
                              then waveValue s a b else cell (zeroGrid ?cols ?rows) a b)"
    by blast
  have "updateHeightfield s =
          Done (s\<lparr>heightfieldPrevious := heightfieldCurrent s, heightfieldCurrent := new\<rparr>)"
    using r by (simp add: updateHeightfield_def)
  moreover have "\<forall>a b. 0 \<le> a \<longrightarrow> a < ?cols \<longrightarrow> 0 \<le> b \<longrightarrow> b < ?rows \<longrightarrow>
             cell new a b = (if 1 \<le> b \<and> b \<le> ?rows - 2 then waveValue s a b else 0)"
    using c by (auto simp: cell_zeroGrid)
  ultimately show ?thesis using sh by blast
qed

text \<open>
  C1. For every well-shaped grid state and every interior cell (\<open>0 \<le> col < cols\<close>,
  \<open>1 \<le> row \<le> rows - 2\<close>), one call of \<open>updateHeightfield\<close> returns, and the new
  current value at \<open>(col, row)\<close> is \<open>damping * (S / 8 - current[col][row])\<close>, where
  \<open>S\<close> is the sum of the eight neighbours in the previous buffer, the columns taken
  modulo \<open>cols\<close>.
\<close>

theorem updateHeightfield_interior_cell:
  assumes "wellShaped s" "0 \<le> col" "col < heightfieldCols s"
    "1 \<le> row" "row \<le> heightfieldRows s - 2"
  shows "returned (updateHeightfield s) \<and>
         cell (heightfieldCurrent (state_of (updateHeightfield s))) col row =
           damping s * (neighborSum (heightfieldCols s) (heightfieldPrevious s) col row / 8
                        - cell (heightfieldCurrent s) col row)"
proof -
  from updateHeightfield_run[OF assms(1)] obtain new where
    r: "updateHeightfield s =
          Done (s\<lparr>heightfieldPrevious := heightfieldCurrent s, heightfieldCurrent := new\<rparr>)"
    and c: "\<forall>a b. 0 \<le> a \<longrightarrow> a < heightfieldCols s \<longrightarrow> 0 \<le> b \<longrightarrow> b < heightfieldRows s \<longrightarrow>
             cell new a b = (if 1 \<le> b \<and> b \<le> heightfieldRows s - 2 then waveValue s a b else 0)"
    by blast
  have "cell new col row = waveValue s col row" using c assms(2-5) by simp
  then show ?thesis using r by (simp add: waveValue_def mult.commute)
qed

lemma wellShaped_smallState: "wellShaped smallState"
  by (simp add: wellShaped_def shaped_def smallState_def)

theorem updateHeightfield_interior_cell_witness:
  "wellShaped smallState \<and> returned (updateHeightfield smallState) \<and>
   cell (heightfieldCurrent (state_of (updateHeightfield smallState))) 0 1 = 3 / 16"
  using updateHeightfield_interior_cell[of smallState 0 1] wellShaped_smallState
  by (simp add: smallState_def neighborSum_def)

section \<open>Impulses change the previous buffer only, and only its interior rows\<close>

lemma constrain_interior:
  "3 \<le> rows \<Longrightarrow> 1 \<le> constrain n 1 (rows - 2) \<and> constrain n 1 (rows - 2) \<le> rows - 2"
  by (simp add: constrain_def)

lemma keepsEdges_refl: "shaped cols rows P \<Longrightarrow> keepsEdges cols rows P P"
  by (simp add: keepsEdges_def)

lemma keepsEdges_trans:
  "keepsEdges cols rows P P1 \<Longrightarrow> keepsEdges cols rows P1 P2 \<Longrightarrow> keepsEdges cols rows P P2"
  by (simp add: keepsEdges_def)

lemma keepsEdges_write:
  assumes "shaped cols rows P" "writeCell P i j v = Inr P'"
    "3 \<le> rows \<longrightarrow> 1 \<le> j \<and> j \<le> rows - 2"
  shows "keepsEdges cols rows P P'"
proof -
  from writeCell_InrD[OF assms(1,2)]
  have r: "0 \<le> i" "i < cols" "0 \<le> j" "j < rows"
    and P': "P' = P[nat i := (P ! nat i)[nat j := v]]" by auto
  have sh: "shaped cols rows P'" unfolding P' by (rule shaped_update[OF assms(1)])
  have "cell P' a 0 = cell P a 0 \<and> cell P' a (rows - 1) = cell P a (rows - 1)"
    if "3 \<le> rows" "0 \<le> a" "a < cols" for a
  proof -
    have "cell P' a 0 = cell P a 0"
      unfolding P' using assms(3) that cell_update[OF assms(1) r that(2,3), of 0 v] by simp
    moreover have "cell P' a (rows - 1) = cell P a (rows - 1)"
      unfolding P' using assms(3) that cell_update[OF assms(1) r that(2,3), of "rows - 1" v]
      by simp
    ultimately show ?thesis by simp
  qed
  then show ?thesis using sh by (simp add: keepsEdges_def)
qed

lemma neighbourLoop_frame:
  "\<exists>P'. state_of (neighbourLoop ti pj v ds s) = s\<lparr>heightfieldPrevious := P'\<rparr>"
proof (induction ds arbitrary: s)
  case Nil
  have "s = s\<lparr>heightfieldPrevious := heightfieldPrevious s\<rparr>" by simp
  then show ?case by (metis neighbourLoop.simps(1) state_of.simps(1))
next
  case (Cons d ds)
  obtain di dj where d: "d = (di, dj)" by (cases d)
  show ?case
  proof (cases "di = 0 \<and> dj = 0")
    case True
    then show ?thesis using Cons.IH[of s] d by simp
  next
    case False
    let ?w = "writeCell (heightfieldPrevious s)
                (jsRem (ti + di + heightfieldCols s) (heightfieldCols s))
                (constrain (pj + dj) 1 (heightfieldRows s - 2)) v"
    show ?thesis
    proof (cases ?w)
      case (Inl e)
      have "s = s\<lparr>heightfieldPrevious := heightfieldPrevious s\<rparr>" by simp
      moreover have "state_of (neighbourLoop ti pj v (d # ds) s) = s"
        using False Inl d by (auto simp: Let_def)
      ultimately show ?thesis by metis
    next
      case (Inr P1)
      from Cons.IH[of "s\<lparr>heightfieldPrevious := P1\<rparr>"] obtain P' where
        "state_of (neighbourLoop ti pj v ds (s\<lparr>heightfieldPrevious := P1\<rparr>)) =
           s\<lparr>heightfieldPrevious := P'\<rparr>" by auto
      moreover have "neighbourLoop ti pj v (d # ds) s =
          neighbourLoop ti pj v ds (s\<lparr>heightfieldPrevious := P1\<rparr>)"
        using False Inr d by (auto simp: Let_def)
      ultimately show ?thesis by auto
    qed
  qed
qed

lemma neighbourLoop_edges:
  assumes "shaped (heightfieldCols s) (heightfieldRows s) (heightfieldPrevious s)"
  shows "keepsEdges (heightfieldCols s) (heightfieldRows s) (heightfieldPrevious s)
           (heightfieldPrevious (state_of (neighbourLoop ti pj v ds s)))"
  using assms
proof (induction ds arbitrary: s)
  case Nil
  then show ?case by (simp add: keepsEdges_refl)
next
  case (Cons d ds)
  obtain di dj where d: "d = (di, dj)" by (cases d)
  let ?cols = "heightfieldCols s" and ?rows = "heightfieldRows s"
  show ?case
  proof (cases "di = 0 \<and> dj = 0")
    case True
    then show ?thesis using Cons.IH[OF Cons.prems] d by simp
  next
    case False
    let ?j = "constrain (pj + dj) 1 (?rows - 2)"
    let ?w = "writeCell (heightfieldPrevious s) (jsRem (ti + di + ?cols) ?cols) ?j v"
    show ?thesis
    proof (cases ?w)
      case (Inl e)
      then have "state_of (neighbourLoop ti pj v (d # ds) s) = s"
        using False d by (auto simp: Let_def)
      then show ?thesis using Cons.prems by (simp add: keepsEdges_refl)
    next
      case (Inr P1)
      have k1: "keepsEdges ?cols ?rows (heightfieldPrevious s) P1"
        using keepsEdges_write[OF Cons.prems Inr] constrain_interior[of ?rows "pj + dj"] by blast
      then have sh1: "shaped ?cols ?rows P1" by (simp add: keepsEdges_def)
      let ?s1 = "s\<lparr>heightfieldPrevious := P1\<rparr>"
      have "keepsEdges ?cols ?rows P1 (heightfieldPrevious (state_of (neighbourLoop ti pj v ds ?s1)))"
        using Cons.IH[of ?s1] sh1 by simp
      moreover have "neighbourLoop ti pj v (d # ds) s = neighbourLoop ti pj v ds ?s1"
        using False Inr d by (auto simp: Let_def)
      ultimately show ?thesis using k1 keepsEdges_trans by metis
    qed
  qed
qed

lemma stamp_frame:
  "\<exists>P'. state_of (stamp strength falloff ti pj s) = s\<lparr>heightfieldPrevious := P'\<rparr>"
proof (cases "writeCell (heightfieldPrevious s) ti pj strength")
  case (Inl e)
  have "s = s\<lparr>heightfieldPrevious := heightfieldPrevious s\<rparr>" by simp
  moreover have "state_of (stamp strength falloff ti pj s) = s" using Inl by (simp add: stamp_def)
  ultimately show ?thesis by metis
next
  case (Inr P1)
  from neighbourLoop_frame[of ti pj "strength * falloff" offsets "s\<lparr>heightfieldPrevious := P1\<rparr>"]
  show ?thesis using Inr by (auto simp: stamp_def)
qed

lemma stamp_edges:
  assumes "shaped (heightfieldCols s) (heightfieldRows s) (heightfieldPrevious s)"
    "3 \<le> heightfieldRows s \<longrightarrow> 1 \<le> pj \<and> pj \<le> heightfieldRows s - 2"
  shows "keepsEdges (heightfieldCols s) (heightfieldRows s) (heightfieldPrevious s)
           (heightfieldPrevious (state_of (stamp strength falloff ti pj s)))"
proof (cases "writeCell (heightfieldPrevious s) ti pj strength")
  case (Inl e)
  then show ?thesis using assms(1) by (simp add: stamp_def keepsEdges_refl)
next
  case (Inr P1)
  let ?cols = "heightfieldCols s" and ?rows = "heightfieldRows s"
  let ?s1 = "s\<lparr>heightfieldPrevious := P1\<rparr>"
  have k1: "keepsEdges ?cols ?rows (heightfieldPrevious s) P1"
    using keepsEdges_write[OF assms(1) Inr assms(2)] .
  then have sh1: "shaped ?cols ?rows P1" by (simp add: keepsEdges_def)
  have "keepsEdges ?cols ?rows P1
          (heightfieldPrevious (state_of (neighbourLoop ti pj (strength * falloff) offsets ?s1)))"
    using neighbourLoop_edges[of ?s1] sh1 by simp
  then show ?thesis using Inr k1 keepsEdges_trans by (auto simp: stamp_def)
qed

lemma pathLoop_frame:
  "\<exists>P'. state_of (pathLoop strength a b c d steps ks s) = s\<lparr>heightfieldPrevious := P'\<rparr>"
proof (induction ks arbitrary: s)
  case Nil
  have "s = s\<lparr>heightfieldPrevious := heightfieldPrevious s\<rparr>" by simp
  then show ?case by (metis pathLoop.simps(1) state_of.simps(1))
next
  case (Cons k ks)
  obtain ti pj where pc: "pathCell (heightfieldCols s) (heightfieldRows s) a b c d steps k = (ti, pj)"
    by (cases "pathCell (heightfieldCols s) (heightfieldRows s) a b c d steps k")
  from stamp_frame[of strength "6 / 10" ti pj s] obtain P1 where
    f1: "state_of (stamp strength (6 / 10) ti pj s) = s\<lparr>heightfieldPrevious := P1\<rparr>" by blast
  show ?case
  proof (cases "stamp strength (6 / 10) ti pj s")
    case (Threw e s')
    then show ?thesis using pc f1 by auto
  next
    case (Done s')
    then have s': "s' = s\<lparr>heightfieldPrevious := P1\<rparr>" using f1 by simp
    from Cons.IH[of s'] show ?thesis using pc Done s' by auto
  qed
qed

lemma pathLoop_edges:
  assumes "shaped (heightfieldCols s) (heightfieldRows s) (heightfieldPrevious s)"
  shows "keepsEdges (heightfieldCols s) (heightfieldRows s) (heightfieldPrevious s)
           (heightfieldPrevious (state_of (pathLoop strength a b c d steps ks s)))"
  using assms
proof (induction ks arbitrary: s)
  case Nil
  then show ?case by (simp add: keepsEdges_refl)
next
  case (Cons k ks)
  let ?cols = "heightfieldCols s" and ?rows = "heightfieldRows s"
  obtain ti pj where pc: "pathCell ?cols ?rows a b c d steps k = (ti, pj)"
    by (cases "pathCell ?cols ?rows a b c d steps k")
  then have pj: "3 \<le> ?rows \<longrightarrow> 1 \<le> pj \<and> pj \<le> ?rows - 2"
    using constrain_interior[of ?rows] by (auto simp: pathCell_def Let_def)
  from stamp_frame[of strength "6 / 10" ti pj s] obtain P1 where
    f1: "state_of (stamp strength (6 / 10) ti pj s) = s\<lparr>heightfieldPrevious := P1\<rparr>" by blast
  have k1: "keepsEdges ?cols ?rows (heightfieldPrevious s) P1"
    using stamp_edges[OF Cons.prems pj, of strength "6 / 10" ti] f1 by simp
  then have sh1: "shaped ?cols ?rows P1" by (simp add: keepsEdges_def)
  show ?case
  proof (cases "stamp strength (6 / 10) ti pj s")
    case (Threw e s')
    then show ?thesis using pc f1 k1 by auto
  next
    case (Done s')
    then have s': "s' = s\<lparr>heightfieldPrevious := P1\<rparr>" using f1 by simp
    have "keepsEdges ?cols ?rows P1
            (heightfieldPrevious (state_of (pathLoop strength a b c d steps ks s')))"
      using Cons.IH[of s'] sh1 s' by simp
    then show ?thesis using pc Done k1 keepsEdges_trans by auto
  qed
qed

lemma addHeightfieldImpulse_frame:
  "\<exists>P' t p. state_of (addHeightfieldImpulse theta phi isFirstTouch s) =
     s\<lparr>heightfieldPrevious := P', lastDrawTheta := t, lastDrawPhi := p\<rparr>"
proof -
  let ?cols = "heightfieldCols s" and ?rows = "heightfieldRows s"
  let ?ti = "thetaToIndex ?cols theta" and ?pj = "phiToIndex ?rows phi"
  let ?lt = "thetaToIndex ?cols (lastDrawTheta s)" and ?lp = "phiToIndex ?rows (lastDrawPhi s)"
  let ?steps = "max \<bar>?ti - ?lt\<bar> \<bar>?pj - ?lp\<bar>"
  let ?r = "if \<not> isFirstTouch
            then pathLoop impulseStrength ?lt ?lp ?ti ?pj ?steps [0 .. ?steps] s
            else stamp impulseStrength (7 / 10) ?ti ?pj s"
  have "\<exists>P'. state_of ?r = s\<lparr>heightfieldPrevious := P'\<rparr>"
    using pathLoop_frame stamp_frame by auto
  then obtain P' where f: "state_of ?r = s\<lparr>heightfieldPrevious := P'\<rparr>" by blast
  have e: "addHeightfieldImpulse theta phi isFirstTouch s =
     (case ?r of Threw e s' \<Rightarrow> Threw e s'
      | Done s' \<Rightarrow> Done (s'\<lparr>lastDrawTheta := theta, lastDrawPhi := phi\<rparr>))"
    by (simp add: addHeightfieldImpulse_def Let_def)
  show ?thesis
  proof (cases ?r)
    case (Done s')
    then have "state_of (addHeightfieldImpulse theta phi isFirstTouch s) =
       s\<lparr>heightfieldPrevious := P', lastDrawTheta := theta, lastDrawPhi := phi\<rparr>"
      using e f by simp
    then show ?thesis by blast
  next
    case (Threw er s')
    then have "state_of (addHeightfieldImpulse theta phi isFirstTouch s) =
       s\<lparr>heightfieldPrevious := P', lastDrawTheta := lastDrawTheta s, lastDrawPhi := lastDrawPhi s\<rparr>"
      using e f by simp
    then show ?thesis by blast
  qed
qed

lemma addHeightfieldImpulse_edges:
  assumes "shaped (heightfieldCols s) (heightfieldRows s) (heightfieldPrevious s)"
  shows "keepsEdges (heightfieldCols s) (heightfieldRows s) (heightfieldPrevious s)
           (heightfieldPrevious (state_of (addHeightfieldImpulse theta phi isFirstTouch s)))"
proof -
  let ?cols = "heightfieldCols s" and ?rows = "heightfieldRows s"
  let ?ti = "thetaToIndex ?cols theta" and ?pj = "phiToIndex ?rows phi"
  let ?lt = "thetaToIndex ?cols (lastDrawTheta s)" and ?lp = "phiToIndex ?rows (lastDrawPhi s)"
  let ?steps = "max \<bar>?ti - ?lt\<bar> \<bar>?pj - ?lp\<bar>"
  let ?r = "if \<not> isFirstTouch
            then pathLoop impulseStrength ?lt ?lp ?ti ?pj ?steps [0 .. ?steps] s
            else stamp impulseStrength (7 / 10) ?ti ?pj s"
  have pj: "3 \<le> ?rows \<longrightarrow> 1 \<le> ?pj \<and> ?pj \<le> ?rows - 2"
    using constrain_interior[of ?rows] by (simp add: phiToIndex_def)
  have k: "keepsEdges ?cols ?rows (heightfieldPrevious s) (heightfieldPrevious (state_of ?r))"
    using pathLoop_edges[OF assms] stamp_edges[OF assms pj] by auto
  have e: "addHeightfieldImpulse theta phi isFirstTouch s =
     (case ?r of Threw e s' \<Rightarrow> Threw e s'
      | Done s' \<Rightarrow> Done (s'\<lparr>lastDrawTheta := theta, lastDrawPhi := phi\<rparr>))"
    by (simp add: addHeightfieldImpulse_def Let_def)
  have "heightfieldPrevious (state_of (addHeightfieldImpulse theta phi isFirstTouch s)) =
        heightfieldPrevious (state_of ?r)"
    unfolding e by (cases ?r) simp_all
  then show ?thesis using k by simp
qed

section \<open>The boundary rows\<close>

lemma updateHeightfield_inv:
  assumes "gridInv s"
  shows "gridInv (state_of (updateHeightfield s)) \<and>
         heightfieldCols (state_of (updateHeightfield s)) = heightfieldCols s \<and>
         heightfieldRows (state_of (updateHeightfield s)) = heightfieldRows s"
proof -
  have ws: "wellShaped s" and r3: "3 \<le> heightfieldRows s"
    and ec: "edgesZero (heightfieldCols s) (heightfieldRows s) (heightfieldCurrent s)"
    using assms by (simp_all add: gridInv_def)
  from updateHeightfield_run[OF ws] obtain new where
    r: "updateHeightfield s =
          Done (s\<lparr>heightfieldPrevious := heightfieldCurrent s, heightfieldCurrent := new\<rparr>)"
    and sh: "shaped (heightfieldCols s) (heightfieldRows s) new"
    and c: "\<forall>a b. 0 \<le> a \<longrightarrow> a < heightfieldCols s \<longrightarrow> 0 \<le> b \<longrightarrow> b < heightfieldRows s \<longrightarrow>
             cell new a b = (if 1 \<le> b \<and> b \<le> heightfieldRows s - 2 then waveValue s a b else 0)"
    by blast
  have "cell new a 0 = 0 \<and> cell new a (heightfieldRows s - 1) = 0"
    if "0 \<le> a" "a < heightfieldCols s" for a
  proof -
    have "cell new a 0 = 0" using c[rule_format, of a 0] that r3 by simp
    moreover have "cell new a (heightfieldRows s - 1) = 0"
      using c[rule_format, of a "heightfieldRows s - 1"] that r3 by simp
    ultimately show ?thesis by simp
  qed
  then have en: "edgesZero (heightfieldCols s) (heightfieldRows s) new"
    by (simp add: edgesZero_def)
  show ?thesis
    using r sh en ec ws r3 by (simp add: gridInv_def wellShaped_def)
qed

lemma addHeightfieldImpulse_inv:
  assumes "gridInv s"
  shows "gridInv (state_of (addHeightfieldImpulse theta phi isFirstTouch s)) \<and>
         heightfieldCols (state_of (addHeightfieldImpulse theta phi isFirstTouch s)) = heightfieldCols s \<and>
         heightfieldRows (state_of (addHeightfieldImpulse theta phi isFirstTouch s)) = heightfieldRows s"
proof -
  let ?s' = "state_of (addHeightfieldImpulse theta phi isFirstTouch s)"
  have ws: "wellShaped s" and r3: "3 \<le> heightfieldRows s"
    and ec: "edgesZero (heightfieldCols s) (heightfieldRows s) (heightfieldCurrent s)"
    and ep: "edgesZero (heightfieldCols s) (heightfieldRows s) (heightfieldPrevious s)"
    using assms by (simp_all add: gridInv_def)
  from addHeightfieldImpulse_frame[of theta phi isFirstTouch s] obtain P' t p where
    f: "?s' = s\<lparr>heightfieldPrevious := P', lastDrawTheta := t, lastDrawPhi := p\<rparr>" by blast
  have shP: "shaped (heightfieldCols s) (heightfieldRows s) (heightfieldPrevious s)"
    using ws by (simp add: wellShaped_def)
  have k: "keepsEdges (heightfieldCols s) (heightfieldRows s) (heightfieldPrevious s) P'"
    using addHeightfieldImpulse_edges[OF shP, of theta phi isFirstTouch] f by simp
  have "edgesZero (heightfieldCols s) (heightfieldRows s) P'"
    using k ep r3 by (simp add: keepsEdges_def edgesZero_def)
  moreover have "shaped (heightfieldCols s) (heightfieldRows s) P'"
    using k by (simp add: keepsEdges_def)
  ultimately show ?thesis
    using f ec ws r3 by (simp add: gridInv_def wellShaped_def)
qed

lemma run_inv:
  "gridInv s \<Longrightarrow>
   gridInv (run evs s) \<and> heightfieldCols (run evs s) = heightfieldCols s \<and>
   heightfieldRows (run evs s) = heightfieldRows s"
proof (induction evs arbitrary: s)
  case Nil
  then show ?case by simp
next
  case (Cons ev evs)
  have "gridInv (state_of (fire ev s)) \<and>
        heightfieldCols (state_of (fire ev s)) = heightfieldCols s \<and>
        heightfieldRows (state_of (fire ev s)) = heightfieldRows s"
  proof (cases ev)
    case Step
    then show ?thesis using updateHeightfield_inv[OF Cons.prems] by simp
  next
    case (Impulse theta phi isFirstTouch)
    then show ?thesis
      using addHeightfieldImpulse_inv[OF Cons.prems, of theta phi isFirstTouch] by simp
  qed
  then show ?case using Cons.IH[of "state_of (fire ev s)"] by simp
qed

lemma gridInv_zero:
  assumes "3 \<le> heightfieldRows s" "0 \<le> heightfieldCols s"
    "heightfieldCurrent s = zeroGrid (heightfieldCols s) (heightfieldRows s)"
    "heightfieldPrevious s = zeroGrid (heightfieldCols s) (heightfieldRows s)"
  shows "gridInv s"
proof -
  let ?z = "zeroGrid (heightfieldCols s) (heightfieldRows s)"
  have sh: "shaped (heightfieldCols s) (heightfieldRows s) ?z"
    using assms(1,2) by (intro shaped_zeroGrid) auto
  have "cell ?z a 0 = 0 \<and> cell ?z a (heightfieldRows s - 1) = 0"
    if "0 \<le> a" "a < heightfieldCols s" for a
    using that assms(1) cell_zeroGrid[of a "heightfieldCols s" 0 "heightfieldRows s"]
      cell_zeroGrid[of a "heightfieldCols s" "heightfieldRows s - 1" "heightfieldRows s"]
    by simp
  then have "edgesZero (heightfieldCols s) (heightfieldRows s) ?z"
    by (simp add: edgesZero_def)
  then show ?thesis using sh assms by (simp add: gridInv_def wellShaped_def)
qed

text \<open>
  C2. Starting from the all-zero grid (with at least three rows), after any finite sequence
  of simulation steps and impulses every cell in row \<open>0\<close> and in row
  \<open>rows - 1\<close> of the current and of the previous buffer is 0. The buffers keep their
  shape, so these cells exist.
\<close>

theorem boundary_rows_stay_zero:
  assumes "3 \<le> heightfieldRows s"
    "heightfieldCurrent s = zeroGrid (heightfieldCols s) (heightfieldRows s)"
    "heightfieldPrevious s = zeroGrid (heightfieldCols s) (heightfieldRows s)"
    "0 \<le> col" "col < heightfieldCols s"
  shows "wellShaped (run evs s) \<and>
         heightfieldCols (run evs s) = heightfieldCols s \<and>
         heightfieldRows (run evs s) = heightfieldRows s \<and>
         cell (heightfieldCurrent (run evs s)) col 0 = 0 \<and>
         cell (heightfieldCurrent (run evs s)) col (heightfieldRows s - 1) = 0 \<and>
         cell (heightfieldPrevious (run evs s)) col 0 = 0 \<and>
         cell (heightfieldPrevious (run evs s)) col (heightfieldRows s - 1) = 0"
proof -
  let ?s' = "run evs s"
  have "gridInv s" using assms by (intro gridInv_zero) auto
  from run_inv[OF this, of evs]
  have inv: "gridInv ?s'" and c: "heightfieldCols ?s' = heightfieldCols s"
    and r: "heightfieldRows ?s' = heightfieldRows s" by simp_all
  have ws: "wellShaped ?s'" using inv by (simp add: gridInv_def)
  have "edgesZero (heightfieldCols ?s') (heightfieldRows ?s') (heightfieldCurrent ?s')"
    using inv by (simp add: gridInv_def)
  then have ec: "edgesZero (heightfieldCols s) (heightfieldRows s) (heightfieldCurrent ?s')"
    by (simp only: c r)
  have "edgesZero (heightfieldCols ?s') (heightfieldRows ?s') (heightfieldPrevious ?s')"
    using inv by (simp add: gridInv_def)
  then have ep: "edgesZero (heightfieldCols s) (heightfieldRows s) (heightfieldPrevious ?s')"
    by (simp only: c r)
  have "cell (heightfieldCurrent ?s') col 0 = 0 \<and>
        cell (heightfieldCurrent ?s') col (heightfieldRows s - 1) = 0"
    using ec assms(4,5) unfolding edgesZero_def by blast
  moreover have "cell (heightfieldPrevious ?s') col 0 = 0 \<and>
        cell (heightfieldPrevious ?s') col (heightfieldRows s - 1) = 0"
    using ep assms(4,5) unfolding edgesZero_def by blast
  ultimately show ?thesis using ws c r by simp
qed

section \<open>Setup\<close>

lemma setupLoop_replicate:
  "setupLoop rows [int k .. int k + int m - 1]
     (replicate k (replicate (nat rows) 0), replicate k (replicate (nat rows) 0)) =
   (replicate (k + m) (replicate (nat rows) 0), replicate (k + m) (replicate (nat rows) 0))"
proof (induction m arbitrary: k)
  case 0
  then show ?case by simp
next
  case (Suc m)
  have u: "[int k .. int k + int (Suc m) - 1] = int k # [int (Suc k) .. int (Suc k) + int m - 1]"
    by (subst upto_rec1) (simp_all add: algebra_simps)
  have p: "putColumn (replicate k (replicate (nat rows) 0)) (int k) (replicate (nat rows) 0) =
           replicate (Suc k) (replicate (nat rows) (0::real))"
    by (simp add: putColumn_def replicate_append_same)
  show ?case unfolding u using Suc.IH[of "Suc k"] by (simp add: p)
qed

lemma setupSketch_fresh:
  assumes "heightfieldCurrent g = []" "heightfieldPrevious g = []"
  shows "setupSketch g =
           g\<lparr>heightfieldCurrent := zeroGrid (heightfieldCols g) (heightfieldRows g),
             heightfieldPrevious := zeroGrid (heightfieldCols g) (heightfieldRows g)\<rparr>"
proof (cases "0 \<le> heightfieldCols g")
  case True
  have "[0 .. heightfieldCols g - 1] = [int 0 .. int 0 + int (nat (heightfieldCols g)) - 1]"
    using True by simp
  then have "setupLoop (heightfieldRows g) [0 .. heightfieldCols g - 1] ([], []) =
             (zeroGrid (heightfieldCols g) (heightfieldRows g),
              zeroGrid (heightfieldCols g) (heightfieldRows g))"
    using setupLoop_replicate[of "heightfieldRows g" 0 "nat (heightfieldCols g)"]
    by (simp add: zeroGrid_def)
  then show ?thesis using assms by (simp add: setupSketch_def)
next
  case False
  then have "[0 .. heightfieldCols g - 1] = []" by simp
  then show ?thesis using assms False by (simp add: setupSketch_def zeroGrid_def)
qed

lemma setupSketch_declared:
  "setupSketch declared =
     declared\<lparr>heightfieldCurrent := zeroGrid 256 128, heightfieldPrevious := zeroGrid 256 128\<rparr>"
  using setupSketch_fresh[of declared] by (simp add: declared_def)

theorem boundary_rows_stay_zero_witness:
  "3 \<le> heightfieldRows (setupSketch declared) \<and>
   heightfieldCurrent (setupSketch declared) = zeroGrid 256 128 \<and>
   heightfieldPrevious (setupSketch declared) = zeroGrid 256 128 \<and>
   cell (heightfieldCurrent (run [Impulse 0 0 True, Step] (setupSketch declared))) 7 0 = 0 \<and>
   cell (heightfieldCurrent (run [Impulse 0 0 True, Step] (setupSketch declared))) 7 127 = 0 \<and>
   cell (heightfieldPrevious (run [Impulse 0 0 True, Step] (setupSketch declared))) 7 0 = 0 \<and>
   cell (heightfieldPrevious (run [Impulse 0 0 True, Step] (setupSketch declared))) 7 127 = 0"
proof -
  have d: "heightfieldRows (setupSketch declared) = 128" "heightfieldCols (setupSketch declared) = 256"
    "heightfieldCurrent (setupSketch declared) = zeroGrid 256 128"
    "heightfieldPrevious (setupSketch declared) = zeroGrid 256 128"
    unfolding setupSketch_declared by (simp_all add: declared_def)
  show ?thesis
    using boundary_rows_stay_zero[of "setupSketch declared" 7 "[Impulse 0 0 True, Step]"]
    unfolding d by simp
qed

section \<open>Setup does not validate\<close>

lemma wellShaped_setupSketch:
  assumes "heightfieldCurrent g = []" "heightfieldPrevious g = []"
    "0 \<le> heightfieldCols g" "0 \<le> heightfieldRows g"
  shows "wellShaped (setupSketch g)"
  using shaped_zeroGrid[of "heightfieldCols g" "heightfieldRows g"] assms(3,4)
  by (simp add: setupSketch_fresh[OF assms(1,2)] wellShaped_def)

lemma returned_updateHeightfield: "wellShaped s \<Longrightarrow> returned (updateHeightfield s)"
  using updateHeightfield_run[of s] by auto

text \<open>
  C6 as stated fails: with two rows only, or with a damping of 3/2, setup allocates the
  buffers as with any other configuration and the step runs.
\<close>

theorem setup_accepts_invalid_configuration:
  "\<not> validConfig (declared\<lparr>heightfieldRows := 2\<rparr>) \<and>
   setupSketch (declared\<lparr>heightfieldRows := 2\<rparr>) =
     declared\<lparr>heightfieldRows := 2, heightfieldCurrent := zeroGrid 256 2,
               heightfieldPrevious := zeroGrid 256 2\<rparr> \<and>
   returned (updateHeightfield (setupSketch (declared\<lparr>heightfieldRows := 2\<rparr>))) \<and>
   \<not> validConfig (declared\<lparr>damping := 3 / 2\<rparr>) \<and>
   setupSketch (declared\<lparr>damping := 3 / 2\<rparr>) =
     declared\<lparr>damping := 3 / 2, heightfieldCurrent := zeroGrid 256 128,
               heightfieldPrevious := zeroGrid 256 128\<rparr> \<and>
   returned (updateHeightfield (setupSketch (declared\<lparr>damping := 3 / 2\<rparr>)))"
proof -
  let ?a = "declared\<lparr>heightfieldRows := 2\<rparr>" and ?b = "declared\<lparr>damping := 3 / 2\<rparr>"
  have a: "heightfieldCurrent ?a = []" "heightfieldPrevious ?a = []"
    "0 \<le> heightfieldCols ?a" "0 \<le> heightfieldRows ?a"
    by (simp_all add: declared_def)
  have b: "heightfieldCurrent ?b = []" "heightfieldPrevious ?b = []"
    "0 \<le> heightfieldCols ?b" "0 \<le> heightfieldRows ?b"
    by (simp_all add: declared_def)
  have "\<not> validConfig ?a" "\<not> validConfig ?b" by (simp_all add: validConfig_def declared_def)
  moreover have "setupSketch ?a = declared\<lparr>heightfieldRows := 2, heightfieldCurrent := zeroGrid 256 2,
               heightfieldPrevious := zeroGrid 256 2\<rparr>"
    unfolding setupSketch_fresh[OF a(1,2)] by (simp add: declared_def)
  moreover have "setupSketch ?b = declared\<lparr>damping := 3 / 2, heightfieldCurrent := zeroGrid 256 128,
               heightfieldPrevious := zeroGrid 256 128\<rparr>"
    unfolding setupSketch_fresh[OF b(1,2)] by (simp add: declared_def)
  moreover have "returned (updateHeightfield (setupSketch ?a))"
    by (rule returned_updateHeightfield[OF wellShaped_setupSketch[OF a]])
  moreover have "returned (updateHeightfield (setupSketch ?b))"
    by (rule returned_updateHeightfield[OF wellShaped_setupSketch[OF b]])
  ultimately show ?thesis by blast
qed

text \<open>
  C6, amended. Setup does not look at the configuration: whatever non-negative dimensions
  and whatever damping the globals hold when it runs on the freshly declared (empty)
  buffers, it allocates both buffers as \<open>cols \<times> rows\<close> zeros, and the step
  that follows returns. The configuration that the source declares is a valid one.
\<close>

theorem setupSketch_without_validation:
  assumes "heightfieldCurrent g = []" "heightfieldPrevious g = []"
    "0 \<le> heightfieldCols g" "0 \<le> heightfieldRows g"
  shows "setupSketch g =
           g\<lparr>heightfieldCurrent := zeroGrid (heightfieldCols g) (heightfieldRows g),
             heightfieldPrevious := zeroGrid (heightfieldCols g) (heightfieldRows g)\<rparr> \<and>
         returned (updateHeightfield (setupSketch g)) \<and>
         validConfig declared"
proof -
  have "validConfig declared" by (simp add: validConfig_def declared_def)
  then show ?thesis
    using setupSketch_fresh[OF assms(1,2)]
      returned_updateHeightfield[OF wellShaped_setupSketch[OF assms]]
    by simp
qed

theorem setupSketch_without_validation_witness:
  "heightfieldCurrent declared = [] \<and> heightfieldPrevious declared = [] \<and>
   0 \<le> heightfieldCols declared \<and> 0 \<le> heightfieldRows declared \<and>
   setupSketch declared =
     declared\<lparr>heightfieldCurrent := zeroGrid 256 128, heightfieldPrevious := zeroGrid 256 128\<rparr> \<and>
   returned (updateHeightfield (setupSketch declared))"
proof -
  have d: "heightfieldCurrent declared = []" "heightfieldPrevious declared = []"
    "0 \<le> heightfieldCols declared" "0 \<le> heightfieldRows declared"
    "heightfieldCols declared = 256" "heightfieldRows declared = 128"
    by (simp_all add: declared_def)
  have r: "setupSketch declared =
     declared\<lparr>heightfieldCurrent := zeroGrid 256 128, heightfieldPrevious := zeroGrid 256 128\<rparr> \<and>
     returned (updateHeightfield (setupSketch declared)) \<and> validConfig declared"
    using setupSketch_without_validation[OF d(1-4)] unfolding d(5,6) .
  show ?thesis using r d(1-4) by blast
qed

section \<open>Energy\<close>

lemma waveState_step:
  "updateHeightfield waveState =
     Done (waveState\<lparr>heightfieldPrevious := [[0, - 1, - 1, - 1, 0]],
                      heightfieldCurrent := [[0, 2561 / 1600, 197 / 100, 2561 / 1600, 0]]\<rparr>)"
  by (simp add: updateHeightfield_def waveState_def upto_rec1 waveCell_def readCell_def
      writeCell_def bindE_def jsRem_def zeroGrid_def numeral_eq_Suc)

text \<open>
  C3 as stated fails. In the state \<open>waveState\<close> the damping is 0.985, and one step
  takes the energy of the current buffer from 3 to more than 9, and the energy of both
  buffers together from 6 to more than 12.
\<close>

theorem energy_grows_in_one_step:
  "damping waveState < 1 \<and> returned (updateHeightfield waveState) \<and>
   gridEnergy (heightfieldCurrent waveState) = 3 \<and>
   9 < gridEnergy (heightfieldCurrent (state_of (updateHeightfield waveState))) \<and>
   gridEnergy (heightfieldCurrent waveState) + gridEnergy (heightfieldPrevious waveState) = 6 \<and>
   12 < gridEnergy (heightfieldCurrent (state_of (updateHeightfield waveState)))
        + gridEnergy (heightfieldPrevious (state_of (updateHeightfield waveState)))"
  unfolding waveState_step
  by (simp add: waveState_def gridEnergy_def power2_eq_square)

lemma sum_list_map_int:
  "sum_list (map f xs) = (\<Sum>a\<in>{0..<int (length xs)}. f (xs ! nat a))"
proof -
  have "sum_list (map f xs) = (\<Sum>n = 0..<length xs. f (xs ! n))"
    by (simp add: sum_list_sum_nth)
  also have "\<dots> = (\<Sum>a\<in>int ` {0..<length xs}. f (xs ! nat a))"
    by (simp add: sum.reindex)
  also have "int ` {0..<length xs} = {0..<int (length xs)}"
    by (simp add: image_int_atLeastLessThan)
  finally show ?thesis .
qed

lemma gridEnergy_sum:
  assumes "shaped cols rows g"
  shows "gridEnergy g = (\<Sum>a\<in>{0..<cols}. \<Sum>b\<in>{0..<rows}. (cell g a b)\<^sup>2)"
proof -
  have l: "int (length g) = cols" using assms by (simp add: shaped_def)
  have "gridEnergy g = (\<Sum>a\<in>{0..<cols}. sum_list (map (\<lambda>x. x\<^sup>2) (g ! nat a)))"
    unfolding gridEnergy_def sum_list_map_int l ..
  also have "\<dots> = (\<Sum>a\<in>{0..<cols}. \<Sum>b\<in>{0..<rows}. (cell g a b)\<^sup>2)"
  proof (rule sum.cong[OF refl])
    fix a assume "a \<in> {0..<cols}"
    then have "int (length (g ! nat a)) = rows"
      using shaped_col_length[OF assms, of a] by simp
    then show "sum_list (map (\<lambda>x. x\<^sup>2) (g ! nat a)) = (\<Sum>b\<in>{0..<rows}. (cell g a b)\<^sup>2)"
      unfolding sum_list_map_int by simp
  qed
  finally show ?thesis .
qed

lemma sq_sum2: "(x + y)\<^sup>2 \<le> 2 * x\<^sup>2 + 2 * (y::real)\<^sup>2"
proof -
  have "0 \<le> (x - y)\<^sup>2" by simp
  then show ?thesis by (simp add: power2_eq_square algebra_simps)
qed

lemma sq_sum8:
  fixes a :: real
  shows "(a + b + c + d + e + f + g + h)\<^sup>2
         \<le> 8 * (a\<^sup>2 + b\<^sup>2 + c\<^sup>2 + d\<^sup>2 + e\<^sup>2 + f\<^sup>2 + g\<^sup>2 + h\<^sup>2)"
proof -
  have "(a + b + c + d + e + f + g + h)\<^sup>2 = (((a + b) + (c + d)) + ((e + f) + (g + h)))\<^sup>2"
    by (simp add: add.assoc)
  also have "\<dots> \<le> 2 * ((a + b) + (c + d))\<^sup>2 + 2 * ((e + f) + (g + h))\<^sup>2"
    by (rule sq_sum2)
  also have "\<dots> \<le> 2 * (2 * (a + b)\<^sup>2 + 2 * (c + d)\<^sup>2) + 2 * (2 * (e + f)\<^sup>2 + 2 * (g + h)\<^sup>2)"
    by (intro add_mono mult_left_mono sq_sum2) auto
  also have "\<dots> = 4 * (a + b)\<^sup>2 + 4 * (c + d)\<^sup>2 + 4 * (e + f)\<^sup>2 + 4 * (g + h)\<^sup>2"
    by simp
  also have "\<dots> \<le> 4 * (2 * a\<^sup>2 + 2 * b\<^sup>2) + 4 * (2 * c\<^sup>2 + 2 * d\<^sup>2)
                  + 4 * (2 * e\<^sup>2 + 2 * f\<^sup>2) + 4 * (2 * g\<^sup>2 + 2 * h\<^sup>2)"
    by (intro add_mono mult_left_mono sq_sum2) auto
  also have "\<dots> = 8 * (a\<^sup>2 + b\<^sup>2 + c\<^sup>2 + d\<^sup>2 + e\<^sup>2 + f\<^sup>2 + g\<^sup>2 + h\<^sup>2)"
    by simp
  finally show ?thesis .
qed

lemma wave_sq_bound:
  fixes a :: real
  shows "(((a + b + c + d + e + f + g + h) / 8 - x) * k)\<^sup>2
         \<le> 2 * k\<^sup>2 * ((a\<^sup>2 + b\<^sup>2 + c\<^sup>2 + d\<^sup>2 + e\<^sup>2 + f\<^sup>2 + g\<^sup>2 + h\<^sup>2) / 8 + x\<^sup>2)"
proof -
  let ?S = "a + b + c + d + e + f + g + h"
  let ?Q = "a\<^sup>2 + b\<^sup>2 + c\<^sup>2 + d\<^sup>2 + e\<^sup>2 + f\<^sup>2 + g\<^sup>2 + h\<^sup>2"
  have "(?S / 8)\<^sup>2 = ?S\<^sup>2 / 64" by (simp add: power2_eq_square)
  also have "\<dots> \<le> 8 * ?Q / 64" using sq_sum8[of a b c d e f g h] by (simp add: divide_right_mono)
  finally have s: "(?S / 8)\<^sup>2 \<le> ?Q / 8" by simp
  have "(?S / 8 - x)\<^sup>2 \<le> 2 * (?S / 8)\<^sup>2 + 2 * x\<^sup>2"
    using sq_sum2[of "?S / 8" "- x"] by simp
  also have "\<dots> \<le> 2 * (?Q / 8 + x\<^sup>2)" using s by simp
  finally have m: "(?S / 8 - x)\<^sup>2 * k\<^sup>2 \<le> 2 * (?Q / 8 + x\<^sup>2) * k\<^sup>2"
    by (intro mult_right_mono) auto
  have "((?S / 8 - x) * k)\<^sup>2 = (?S / 8 - x)\<^sup>2 * k\<^sup>2" by (rule power_mult_distrib)
  also have "\<dots> \<le> 2 * (?Q / 8 + x\<^sup>2) * k\<^sup>2" by (rule m)
  also have "\<dots> = 2 * k\<^sup>2 * (?Q / 8 + x\<^sup>2)" by (simp only: mult_ac)
  finally show ?thesis .
qed

lemma sum_shift_cols:
  fixes Q :: "int \<Rightarrow> real"
  assumes "0 < c"
  shows "(\<Sum>a\<in>{0..<c}. Q ((a + di) mod c)) = (\<Sum>a\<in>{0..<c}. Q a)"
proof (rule sum.reindex_bij_witness[where i = "\<lambda>a. (a - di) mod c" and j = "\<lambda>a. (a + di) mod c"])
  fix a assume "a \<in> {0..<c}"
  then have a: "0 \<le> a" "a < c" by simp_all
  show "((a + di) mod c - di) mod c = a" using a by (simp add: mod_diff_left_eq)
  show "(a + di) mod c \<in> {0..<c}" using assms by simp
  show "((a - di) mod c + di) mod c = a" using a by (simp add: mod_add_left_eq)
  show "(a - di) mod c \<in> {0..<c}" using assms by simp
  show "Q ((a + di) mod c) = Q ((a + di) mod c)" ..
qed

lemma sum_shift_rows:
  fixes q :: "int \<Rightarrow> real"
  assumes "\<And>b. 0 \<le> q b" "- 1 \<le> dj" "dj \<le> 1"
  shows "(\<Sum>b\<in>{1..r - 2}. q (b + dj)) \<le> (\<Sum>b\<in>{0..<r}. q b)"
proof -
  have "(\<Sum>b\<in>{1..r - 2}. q (b + dj)) = (\<Sum>b\<in>{1 + dj..r - 2 + dj}. q b)"
    by (rule sum.reindex_bij_witness[where i = "\<lambda>b. b - dj" and j = "\<lambda>b. b + dj"]) auto
  also have "\<dots> \<le> (\<Sum>b\<in>{0..<r}. q b)"
    using assms by (intro sum_mono2) auto
  finally show ?thesis .
qed

lemma shifted_energy:
  assumes "shaped cols rows P" "- 1 \<le> dj" "dj \<le> 1"
  shows "(\<Sum>a\<in>{0..<cols}. \<Sum>b\<in>{1..rows - 2}. (cell P ((a + di) mod cols) (b + dj))\<^sup>2)
         \<le> gridEnergy P"
proof (cases "0 < cols")
  case True
  let ?Q = "\<lambda>a. \<Sum>b\<in>{1..rows - 2}. (cell P a (b + dj))\<^sup>2"
  have "(\<Sum>a\<in>{0..<cols}. ?Q ((a + di) mod cols)) = (\<Sum>a\<in>{0..<cols}. ?Q a)"
    by (rule sum_shift_cols[OF True])
  also have "\<dots> \<le> (\<Sum>a\<in>{0..<cols}. \<Sum>b\<in>{0..<rows}. (cell P a b)\<^sup>2)"
    by (intro sum_mono sum_shift_rows[OF _ assms(2,3)]) simp
  finally show ?thesis by (simp add: gridEnergy_sum[OF assms(1)])
next
  case False
  then have "{0..<cols} = {}" by simp
  then show ?thesis by (simp add: gridEnergy_sum[OF assms(1)])
qed

lemma shifted_rows_energy:
  assumes "shaped cols rows P" "- 1 \<le> dj" "dj \<le> 1"
  shows "(\<Sum>a\<in>{0..<cols}. \<Sum>b\<in>{1..rows - 2}. (cell P a (b + dj))\<^sup>2) \<le> gridEnergy P"
proof -
  have "(\<Sum>a\<in>{0..<cols}. \<Sum>b\<in>{1..rows - 2}. (cell P a (b + dj))\<^sup>2)
        \<le> (\<Sum>a\<in>{0..<cols}. \<Sum>b\<in>{0..<rows}. (cell P a b)\<^sup>2)"
    by (intro sum_mono sum_shift_rows[OF _ assms(2,3)]) simp
  then show ?thesis by (simp add: gridEnergy_sum[OF assms(1)])
qed

lemma avg8_le:
  fixes T1 :: real
  assumes "T1 \<le> E" "T2 \<le> E" "T3 \<le> E" "T4 \<le> E" "T5 \<le> E" "T6 \<le> E" "T7 \<le> E" "T8 \<le> E"
    "X \<le> F"
  shows "(T1 + T2 + T3 + T4 + T5 + T6 + T7 + T8) / 8 + X \<le> E + F"
proof -
  have "T1 + T2 + T3 + T4 + T5 + T6 + T7 + T8 \<le> E + E + E + E + E + E + E + E"
    by (intro add_mono assms)
  then have "(T1 + T2 + T3 + T4 + T5 + T6 + T7 + T8) / 8 \<le> E" by simp
  then show ?thesis using assms(9) by (rule add_mono)
qed

text \<open>
  C3, amended. The energy is not monotone. What one step guarantees, for every well-shaped
  state and every damping, is a bound: the energy of the new current buffer is at most
  \<open>2 * damping\<^sup>2\<close> times the energy of both old buffers together, and the new previous
  buffer has the energy of the old current buffer (it is that buffer).
\<close>

theorem step_energy_bound:
  assumes "wellShaped s"
  shows "returned (updateHeightfield s) \<and>
         gridEnergy (heightfieldCurrent (state_of (updateHeightfield s)))
           \<le> 2 * (damping s)\<^sup>2
              * (gridEnergy (heightfieldPrevious s) + gridEnergy (heightfieldCurrent s)) \<and>
         gridEnergy (heightfieldPrevious (state_of (updateHeightfield s)))
           = gridEnergy (heightfieldCurrent s)"
proof -
  let ?cols = "heightfieldCols s" and ?rows = "heightfieldRows s"
  let ?P = "heightfieldPrevious s" and ?C = "heightfieldCurrent s" and ?k = "damping s"
  have shP: "shaped ?cols ?rows ?P" and shC: "shaped ?cols ?rows ?C"
    using assms by (simp_all add: wellShaped_def)
  from updateHeightfield_run[OF assms] obtain new where
    r: "updateHeightfield s = Done (s\<lparr>heightfieldPrevious := ?C, heightfieldCurrent := new\<rparr>)"
    and sh: "shaped ?cols ?rows new"
    and c: "\<forall>a b. 0 \<le> a \<longrightarrow> a < ?cols \<longrightarrow> 0 \<le> b \<longrightarrow> b < ?rows \<longrightarrow>
             cell new a b = (if 1 \<le> b \<and> b \<le> ?rows - 2 then waveValue s a b else 0)"
    by blast
  let ?I = "{1..?rows - 2}"
  define T1 where "T1 = (\<Sum>a\<in>{0..<?cols}. \<Sum>b\<in>?I. (cell ?P ((a - 1) mod ?cols) b)\<^sup>2)"
  define T2 where "T2 = (\<Sum>a\<in>{0..<?cols}. \<Sum>b\<in>?I. (cell ?P ((a + 1) mod ?cols) b)\<^sup>2)"
  define T3 where "T3 = (\<Sum>a\<in>{0..<?cols}. \<Sum>b\<in>?I. (cell ?P a (b - 1))\<^sup>2)"
  define T4 where "T4 = (\<Sum>a\<in>{0..<?cols}. \<Sum>b\<in>?I. (cell ?P a (b + 1))\<^sup>2)"
  define T5 where "T5 = (\<Sum>a\<in>{0..<?cols}. \<Sum>b\<in>?I. (cell ?P ((a - 1) mod ?cols) (b - 1))\<^sup>2)"
  define T6 where "T6 = (\<Sum>a\<in>{0..<?cols}. \<Sum>b\<in>?I. (cell ?P ((a - 1) mod ?cols) (b + 1))\<^sup>2)"
  define T7 where "T7 = (\<Sum>a\<in>{0..<?cols}. \<Sum>b\<in>?I. (cell ?P ((a + 1) mod ?cols) (b - 1))\<^sup>2)"
  define T8 where "T8 = (\<Sum>a\<in>{0..<?cols}. \<Sum>b\<in>?I. (cell ?P ((a + 1) mod ?cols) (b + 1))\<^sup>2)"
  define X where "X = (\<Sum>a\<in>{0..<?cols}. \<Sum>b\<in>?I. (cell ?C a b)\<^sup>2)"
  have t: "T1 \<le> gridEnergy ?P" "T2 \<le> gridEnergy ?P" "T3 \<le> gridEnergy ?P" "T4 \<le> gridEnergy ?P"
    "T5 \<le> gridEnergy ?P" "T6 \<le> gridEnergy ?P" "T7 \<le> gridEnergy ?P" "T8 \<le> gridEnergy ?P"
    unfolding T1_def T2_def T3_def T4_def T5_def T6_def T7_def T8_def
    using shifted_energy[OF shP, of 0 "- 1"] shifted_energy[OF shP, of 0 1]
      shifted_rows_energy[OF shP, of "- 1"] shifted_rows_energy[OF shP, of 1]
      shifted_energy[OF shP, of "- 1" "- 1"] shifted_energy[OF shP, of 1 "- 1"]
      shifted_energy[OF shP, of "- 1" 1] shifted_energy[OF shP, of 1 1]
    by simp_all
  have x: "X \<le> gridEnergy ?C"
    unfolding X_def using shifted_rows_energy[OF shC, of 0] by simp
  have "gridEnergy new = (\<Sum>a\<in>{0..<?cols}. \<Sum>b\<in>{0..<?rows}. (cell new a b)\<^sup>2)"
    by (rule gridEnergy_sum[OF sh])
  also have "\<dots> = (\<Sum>a\<in>{0..<?cols}. \<Sum>b\<in>{0..<?rows}.
                      if b \<in> ?I then (waveValue s a b)\<^sup>2 else 0)"
    by (intro sum.cong refl) (simp add: c)
  also have "\<dots> = (\<Sum>a\<in>{0..<?cols}. \<Sum>b\<in>?I. (waveValue s a b)\<^sup>2)"
  proof (rule sum.cong[OF refl])
    fix a
    have i: "{0..<?rows} \<inter> ?I = ?I" by auto
    have "(\<Sum>b\<in>{0..<?rows}. if b \<in> ?I then (waveValue s a b)\<^sup>2 else 0)
          = (\<Sum>b\<in>{0..<?rows} \<inter> ?I. (waveValue s a b)\<^sup>2)"
      by (rule sum.inter_restrict[symmetric]) simp
    then show "(\<Sum>b\<in>{0..<?rows}. if b \<in> ?I then (waveValue s a b)\<^sup>2 else 0)
               = (\<Sum>b\<in>?I. (waveValue s a b)\<^sup>2)"
      by (simp only: i)
  qed
  also have "\<dots> \<le> (\<Sum>a\<in>{0..<?cols}. \<Sum>b\<in>?I.
       2 * ?k\<^sup>2 * (((cell ?P ((a - 1) mod ?cols) b)\<^sup>2 + (cell ?P ((a + 1) mod ?cols) b)\<^sup>2
          + (cell ?P a (b - 1))\<^sup>2 + (cell ?P a (b + 1))\<^sup>2
          + (cell ?P ((a - 1) mod ?cols) (b - 1))\<^sup>2 + (cell ?P ((a - 1) mod ?cols) (b + 1))\<^sup>2
          + (cell ?P ((a + 1) mod ?cols) (b - 1))\<^sup>2 + (cell ?P ((a + 1) mod ?cols) (b + 1))\<^sup>2) / 8
          + (cell ?C a b)\<^sup>2))"
    unfolding waveValue_def neighborSum_def by (intro sum_mono wave_sq_bound)
  also have "\<dots> = 2 * ?k\<^sup>2 * ((T1 + T2 + T3 + T4 + T5 + T6 + T7 + T8) / 8 + X)"
    unfolding T1_def T2_def T3_def T4_def T5_def T6_def T7_def T8_def X_def
    by (simp only: sum.distrib sum_distrib_left[symmetric] sum_divide_distrib[symmetric])
  also have "\<dots> \<le> 2 * ?k\<^sup>2 * (gridEnergy ?P + gridEnergy ?C)"
  proof (rule mult_left_mono)
    show "(T1 + T2 + T3 + T4 + T5 + T6 + T7 + T8) / 8 + X \<le> gridEnergy ?P + gridEnergy ?C"
      by (rule avg8_le[OF t x])
    show "0 \<le> 2 * ?k\<^sup>2" by simp
  qed
  finally have "gridEnergy new \<le> 2 * ?k\<^sup>2 * (gridEnergy ?P + gridEnergy ?C)" .
  then show ?thesis using r by simp
qed

theorem step_energy_bound_witness:
  "wellShaped waveState \<and>
   gridEnergy (heightfieldCurrent (state_of (updateHeightfield waveState)))
     \<le> 2 * (985 / 1000)\<^sup>2 * (3 + 3) \<and>
   gridEnergy (heightfieldPrevious (state_of (updateHeightfield waveState))) = 3"
proof -
  have w: "wellShaped waveState" by (simp add: wellShaped_def shaped_def waveState_def)
  have e: "gridEnergy (heightfieldPrevious waveState) = 3" "gridEnergy (heightfieldCurrent waveState) = 3"
    "damping waveState = 985 / 1000"
    by (simp_all add: waveState_def gridEnergy_def)
  show ?thesis using step_energy_bound[OF w] w unfolding e by simp
qed

section \<open>Evaluating the rounding\<close>

lemma roundTiesToEven_of_int [simp]: "roundTiesToEven (of_int n) = n"
  by (simp add: roundTiesToEven_def)

lemma bitlen_eqI:
  assumes "2 ^ n \<le> m" "m < 2 ^ Suc n"
  shows "bitlen m = int n + 1"
proof -
  have "bitlen m \<le> int n + 1" using assms by (simp add: bitlen_le_iff_power nat_add_distrib)
  moreover have "int n + 1 \<le> bitlen m" using assms by (simp add: bitlen_ge_iff_power nat_add_distrib)
  ultimately show ?thesis by simp
qed

lemma expo_eq:
  assumes "2 ^ 52 \<le> \<bar>x\<bar> * 2 ^ k" "\<bar>x\<bar> * 2 ^ k < 2 ^ 53" "k \<le> 1074"
  shows "expo x = 52 - int k"
proof -
  let ?y = "\<bar>x\<bar> * 2 ^ 1074"
  let ?n = "52 + (1074 - k)"
  have e: "?y = (\<bar>x\<bar> * 2 ^ k) * 2 ^ (1074 - k)"
    using assms(3) by (simp add: power_add[symmetric])
  have lo: "2 ^ ?n \<le> ?y"
    unfolding e power_add using assms(1) by (intro mult_right_mono) auto
  have hi: "?y < 2 ^ Suc ?n"
  proof -
    have "?y < 2 ^ 53 * 2 ^ (1074 - k)"
      unfolding e using assms(2) by (intro mult_strict_right_mono) auto
    then show ?thesis by (simp add: power_add)
  qed
  have "(2::int) ^ ?n \<le> \<lfloor>?y\<rfloor>"
  proof -
    have "real_of_int (2 ^ ?n) \<le> ?y" using lo by simp
    then show ?thesis by (simp only: le_floor_iff)
  qed
  moreover have "\<lfloor>?y\<rfloor> < 2 ^ Suc ?n"
  proof -
    have "?y < real_of_int (2 ^ Suc ?n)" using hi by simp
    then show ?thesis by (simp only: floor_less_iff)
  qed
  ultimately have "bitlen \<lfloor>?y\<rfloor> = int ?n + 1" by (rule bitlen_eqI)
  then show ?thesis using assms(3) by (simp add: expo_def)
qed

text \<open>
  A number whose magnitude, scaled by \<open>2 ^ k\<close>, lies in \<open>[2 ^ 52, 2 ^ 53)\<close> is
  rounded to a multiple of \<open>2 ^ -k\<close>: 53 significant bits.
\<close>

lemma fl_eval:
  assumes "2 ^ 52 \<le> \<bar>x\<bar> * 2 ^ k" "\<bar>x\<bar> * 2 ^ k < 2 ^ 53" "k \<le> 1074"
  shows "fl x = of_int (roundTiesToEven (x * 2 ^ k)) / 2 ^ k"
proof -
  have "max (expo x) (- 1022) - 52 = - int k"
    using expo_eq[OF assms] assms(3) by simp
  then show ?thesis
    by (simp add: fl_def Let_def power_int_minus divide_inverse)
qed

lemma fl_zero [simp]: "fl 0 = 0"
  by (simp add: fl_def roundTiesToEven_def)

lemma ex_scale:
  fixes n :: int
  assumes "0 < n" "n < 2 ^ 53"
  shows "\<exists>k\<le>52. 2 ^ 52 \<le> n * 2 ^ k \<and> n * 2 ^ k < 2 ^ 53"
proof -
  let ?b = "nat (bitlen n)"
  have b: "2 ^ (?b - 1) \<le> n" "n < 2 ^ ?b"
  proof -
    have "nat (bitlen n - 1) = nat (bitlen n) - 1" by arith
    then show "2 ^ (?b - 1) \<le> n" using bitlen_bounds[OF assms(1)] by simp
    show "n < 2 ^ ?b" using bitlen_bounds[OF assms(1)] by simp
  qed
  have b1: "1 \<le> ?b" using assms(1) b(2) by (cases "?b") auto
  have b53: "?b \<le> 53"
  proof (rule ccontr)
    assume "\<not> ?b \<le> 53"
    then have "53 \<le> ?b - 1" by simp
    then have "(2::int) ^ 53 \<le> 2 ^ (?b - 1)" by (intro power_increasing) auto
    with b(1) assms(2) show False by simp
  qed
  let ?k = "53 - ?b"
  have "(2::int) ^ 52 = 2 ^ (?b - 1) * 2 ^ ?k"
    using b1 b53 by (simp add: power_add[symmetric])
  also have "\<dots> \<le> n * 2 ^ ?k" using b(1) by (intro mult_right_mono) auto
  finally have lo: "2 ^ 52 \<le> n * 2 ^ ?k" .
  have "n * 2 ^ ?k < 2 ^ ?b * 2 ^ ?k" using b(2) by (intro mult_strict_right_mono) auto
  also have "\<dots> = 2 ^ 53" using b53 by (simp add: power_add[symmetric])
  finally have hi: "n * 2 ^ ?k < 2 ^ 53" .
  show ?thesis using lo hi b1 by (intro exI[of _ ?k]) auto
qed

text \<open>Integers below \<open>2 ^ 53\<close> in magnitude are representable.\<close>

lemma fl_of_int:
  assumes "\<bar>n\<bar> < 2 ^ 53"
  shows "fl (of_int n) = of_int n"
proof (cases "n = 0")
  case True
  then show ?thesis by simp
next
  case False
  then have "0 < \<bar>n\<bar>" by simp
  from ex_scale[OF this assms] obtain k where k: "k \<le> 52"
    "2 ^ 52 \<le> \<bar>n\<bar> * 2 ^ k" "\<bar>n\<bar> * 2 ^ k < 2 ^ 53" by blast
  have lo: "2 ^ 52 \<le> \<bar>real_of_int n\<bar> * 2 ^ k"
  proof -
    have "real_of_int (2 ^ 52) \<le> real_of_int (\<bar>n\<bar> * 2 ^ k)" using k(2) by (simp only: of_int_le_iff)
    then show ?thesis by simp
  qed
  have hi: "\<bar>real_of_int n\<bar> * 2 ^ k < 2 ^ 53"
  proof -
    have "real_of_int (\<bar>n\<bar> * 2 ^ k) < real_of_int (2 ^ 53)" using k(3) by (simp only: of_int_less_iff)
    then show ?thesis by simp
  qed
  have "real_of_int n * 2 ^ k = of_int (n * 2 ^ k)" by simp
  then have "roundTiesToEven (real_of_int n * 2 ^ k) = n * 2 ^ k"
    by (simp only: roundTiesToEven_of_int)
  then show ?thesis using fl_eval[OF lo hi] k(1) by simp
qed

lemma fl_one [simp]: "fl 1 = 1"
  using fl_of_int[of 1] by simp

lemma fl_numeral [simp]: "(numeral n :: int) < 2 ^ 53 \<Longrightarrow> fl (numeral n) = numeral n"
  using fl_of_int[of "numeral n"] by simp

text \<open>
  Rounding never crosses an integer: a bound by an integer on a number below \<open>2 ^ 53\<close>
  in magnitude is a bound on its rounding too.
\<close>

lemma roundTiesToEven_le: "x \<le> of_int k \<Longrightarrow> roundTiesToEven x \<le> k"
proof -
  assume x: "x \<le> of_int k"
  have fl: "\<lfloor>x\<rfloor> \<le> k" using x by (simp add: floor_le_iff)
  show ?thesis
  proof (cases "x - of_int \<lfloor>x\<rfloor> < 1 / 2")
    case True
    then show ?thesis using fl by (simp add: roundTiesToEven_def Let_def)
  next
    case False
    then have "of_int \<lfloor>x\<rfloor> < x" by simp
    then have "of_int \<lfloor>x\<rfloor> < (of_int k :: real)" using x by simp
    then have "\<lfloor>x\<rfloor> < k" by simp
    then have "\<lfloor>x\<rfloor> + 1 \<le> k" by simp
    then show ?thesis using fl by (simp add: roundTiesToEven_def Let_def)
  qed
qed

lemma roundTiesToEven_ge: "of_int k \<le> x \<Longrightarrow> k \<le> roundTiesToEven x"
proof -
  assume "of_int k \<le> x"
  then have "k \<le> \<lfloor>x\<rfloor>" by (simp add: le_floor_iff)
  then show ?thesis by (simp add: roundTiesToEven_def Let_def)
qed

lemma expo_le_52:
  assumes "\<bar>x\<bar> < 2 ^ 53"
  shows "expo x \<le> 52"
proof -
  have "\<bar>x\<bar> * 2 ^ 1074 < 2 ^ 53 * 2 ^ 1074"
    using assms by (intro mult_strict_right_mono) auto
  then have "\<bar>x\<bar> * 2 ^ 1074 < real_of_int (2 ^ 1127)" by (simp add: power_add[symmetric])
  then have "\<lfloor>\<bar>x\<bar> * 2 ^ 1074\<rfloor> < 2 ^ 1127" by (simp only: floor_less_iff)
  then have "bitlen \<lfloor>\<bar>x\<bar> * 2 ^ 1074\<rfloor> \<le> 1127" by (simp add: bitlen_le_iff_power)
  then show ?thesis by (simp add: expo_def)
qed

lemma fl_scaled:
  assumes "\<bar>x\<bar> < 2 ^ 53"
  shows "\<exists>m. fl x = of_int (roundTiesToEven (x * 2 ^ m)) / 2 ^ m"
proof -
  let ?e = "max (expo x) (- 1022)"
  have "?e \<le> 52" using expo_le_52[OF assms] by simp
  then have "?e - 52 = - int (nat (52 - ?e))" by simp
  then obtain m :: nat where "?e - 52 = - int m" by blast
  then have "fl x = of_int (roundTiesToEven (x * 2 ^ m)) / 2 ^ m"
    by (simp add: fl_def Let_def power_int_minus divide_inverse)
  then show ?thesis by blast
qed

lemma fl_le_int:
  assumes "x \<le> of_int n" "\<bar>x\<bar> < 2 ^ 53"
  shows "fl x \<le> of_int n"
proof -
  from fl_scaled[OF assms(2)] obtain m where
    f: "fl x = of_int (roundTiesToEven (x * 2 ^ m)) / 2 ^ m" by blast
  have "x * 2 ^ m \<le> of_int n * 2 ^ m" using assms(1) by (intro mult_right_mono) auto
  then have "x * 2 ^ m \<le> of_int (n * 2 ^ m)" by simp
  then have "roundTiesToEven (x * 2 ^ m) \<le> n * 2 ^ m" by (rule roundTiesToEven_le)
  then have "real_of_int (roundTiesToEven (x * 2 ^ m)) \<le> real_of_int (n * 2 ^ m)"
    by (simp only: of_int_le_iff)
  then have "real_of_int (roundTiesToEven (x * 2 ^ m)) / 2 ^ m \<le> real_of_int (n * 2 ^ m) / 2 ^ m"
    by (intro divide_right_mono) auto
  then show ?thesis unfolding f by simp
qed

lemma fl_ge_int:
  assumes "of_int n \<le> x" "\<bar>x\<bar> < 2 ^ 53"
  shows "of_int n \<le> fl x"
proof -
  from fl_scaled[OF assms(2)] obtain m where
    f: "fl x = of_int (roundTiesToEven (x * 2 ^ m)) / 2 ^ m" by blast
  have "of_int n * 2 ^ m \<le> x * 2 ^ m" using assms(1) by (intro mult_right_mono) auto
  then have "of_int (n * 2 ^ m) \<le> x * 2 ^ m" by simp
  then have "n * 2 ^ m \<le> roundTiesToEven (x * 2 ^ m)" by (rule roundTiesToEven_ge)
  then have "real_of_int (n * 2 ^ m) \<le> real_of_int (roundTiesToEven (x * 2 ^ m))"
    by (simp only: of_int_le_iff)
  then have "real_of_int (n * 2 ^ m) / 2 ^ m \<le> real_of_int (roundTiesToEven (x * 2 ^ m)) / 2 ^ m"
    by (intro divide_right_mono) auto
  then show ?thesis unfolding f by simp
qed

lemma fl_between_ints:
  assumes "of_int a \<le> x" "x \<le> of_int b" "\<bar>a\<bar> < 2 ^ 53" "\<bar>b\<bar> < 2 ^ 53"
  shows "of_int a \<le> fl x \<and> fl x \<le> of_int b"
proof -
  have "real_of_int \<bar>a\<bar> < real_of_int (2 ^ 53)" "real_of_int \<bar>b\<bar> < real_of_int (2 ^ 53)"
    using assms(3,4) by (simp_all only: of_int_less_iff)
  then have "\<bar>real_of_int a\<bar> < 2 ^ 53" "\<bar>real_of_int b\<bar> < 2 ^ 53" by simp_all
  then have "\<bar>x\<bar> < 2 ^ 53" using assms(1,2) by (simp add: abs_less_iff)
  then show ?thesis using fl_le_int[OF assms(2)] fl_ge_int[OF assms(1)] by simp
qed

lemma fl_minus_numeral [simp]:
  "(numeral n :: int) < 2 ^ 53 \<Longrightarrow> fl (- numeral n) = - numeral n"
  using fl_of_int[of "- numeral n"] by simp

lemma fl_minus_one [simp]: "fl (- 1) = - 1"
  using fl_of_int[of "- 1"] by simp

lemma PI_pos: "0 < PI" and TWO_PI_pos: "0 < TWO_PI"
  by (simp_all add: PI_def TWO_PI_def)

section \<open>Angles to indices\<close>

lemma fl_half [simp]: "fl (1 / 2) = 1 / 2"
  by (subst fl_eval[where k = 53]) (simp_all add: roundTiesToEven_def)

lemma fl_five_halves: "fl (5 / 2) = 5 / 2"
  by (subst fl_eval[where k = 51]) (simp_all add: roundTiesToEven_def)

lemma wrapTheta_mod:
  assumes "0 < cols" "- cols \<le> k" "k < 2 * cols"
  shows "wrapTheta cols k = k mod cols"
proof -
  consider "k < 0" | "0 \<le> k" "k < cols" | "cols \<le> k" by linarith
  then show ?thesis
  proof cases
    case 1
    then have "k mod cols = (k + cols) mod cols" by simp
    also have "\<dots> = k + cols" using 1 assms by (intro mod_pos_pos_trivial) auto
    finally show ?thesis using 1 assms by (simp add: wrapTheta_def)
  next
    case 2
    then show ?thesis using assms by (simp add: wrapTheta_def)
  next
    case 3
    then have "k mod cols = (k - cols) mod cols" by simp
    also have "\<dots> = k - cols" using 3 assms by (intro mod_pos_pos_trivial) auto
    finally show ?thesis using 3 assms by (simp add: wrapTheta_def)
  qed
qed

text \<open>
  For an angle between \<open>-TWO_PI\<close> and \<open>TWO_PI\<close> the rounded quotient lies
  between -1 and 1, the rounded product between \<open>-cols\<close> and \<open>cols\<close>.
\<close>

lemma thetaFloor_range:
  assumes "0 < cols" "cols < 2 ^ 53" "- TWO_PI \<le> theta" "theta \<le> TWO_PI"
  shows "- cols \<le> thetaFloor cols theta" and "thetaFloor cols theta \<le> cols"
proof -
  let ?q = "theta / TWO_PI"
  have c: "\<bar>cols\<bar> < 2 ^ 53" "\<bar>- cols\<bar> < 2 ^ 53" using assms(1,2) by simp_all
  have "- 1 \<le> ?q" "?q \<le> 1"
    using assms(3,4) TWO_PI_pos by (simp_all add: pos_le_divide_eq pos_divide_le_eq)
  then have "real_of_int (- 1) \<le> ?q" "?q \<le> real_of_int 1" by simp_all
  from fl_between_ints[OF this] have q: "- 1 \<le> fl ?q" "fl ?q \<le> 1" by simp_all
  let ?p = "fl ?q * of_int cols"
  have cp: "0 \<le> real_of_int cols" using assms(1) by simp
  have "- 1 * real_of_int cols \<le> ?p" using q(1) cp by (intro mult_right_mono)
  then have lo: "real_of_int (- cols) \<le> ?p" by simp
  have "?p \<le> 1 * real_of_int cols" using q(2) cp by (intro mult_right_mono)
  then have hi: "?p \<le> real_of_int cols" by simp
  from fl_between_ints[OF lo hi c(2,1)]
  have "real_of_int (- cols) \<le> fl ?p" "fl ?p \<le> real_of_int cols" by simp_all
  then show "- cols \<le> thetaFloor cols theta" "thetaFloor cols theta \<le> cols"
    unfolding thetaFloor_def by (simp_all only: le_floor_iff floor_le_iff)
qed

lemma thetaToIndex_range:
  assumes "0 < cols" "cols < 2 ^ 53" "- TWO_PI \<le> theta" "theta \<le> TWO_PI"
  shows "0 \<le> thetaToIndex cols theta" "thetaToIndex cols theta < cols"
proof -
  have "- cols \<le> thetaFloor cols theta" "thetaFloor cols theta < 2 * cols"
    using thetaFloor_range[OF assms] assms(1) by simp_all
  from wrapTheta_mod[OF assms(1) this]
  have "thetaToIndex cols theta = thetaFloor cols theta mod cols" by (simp add: thetaToIndex_def)
  then show "0 \<le> thetaToIndex cols theta" "thetaToIndex cols theta < cols"
    using assms(1) by simp_all
qed

lemma phiToIndex_interior:
  "3 \<le> rows \<Longrightarrow> 1 \<le> phiToIndex rows phi \<and> phiToIndex rows phi \<le> rows - 2"
  by (simp add: phiToIndex_def constrain_def)

text \<open>
  C7 as stated fails: the wrap adds or subtracts \<open>cols\<close> once. For
  \<open>theta = 5 * PI\<close> (a binary64 number) and 256 columns the floor is 640 and the
  index is 384, neither \<open>640 mod 256 = 128\<close> nor below 256.
\<close>

theorem thetaToIndex_beyond_one_turn:
  "thetaFloor 256 (5 * PI) = 640 \<and> thetaToIndex 256 (5 * PI) = 384 \<and>
   thetaFloor 256 (5 * PI) mod 256 = 128 \<and> \<not> thetaToIndex 256 (5 * PI) < 256"
proof -
  have e: "5 * PI / TWO_PI = 5 / 2" using PI_pos by (simp add: TWO_PI_def)
  have "thetaFloor 256 (5 * PI) = \<lfloor>fl (fl (5 / 2) * of_int 256)\<rfloor>"
    unfolding thetaFloor_def e ..
  then have "thetaFloor 256 (5 * PI) = 640" by (simp add: fl_five_halves)
  then show ?thesis by (simp add: thetaToIndex_def wrapTheta_def)
qed

text \<open>
  C7, amended. Let \<open>k\<close> be the floor that the code computes,
  \<open>floor (theta / TWO_PI * cols)\<close> in binary64. Whenever \<open>-cols \<le> k < 2 * cols\<close>,
  the column index is \<open>k mod cols\<close> and lies in \<open>[0, cols)\<close>; and this is the case
  for every \<open>theta\<close> from \<open>-TWO_PI\<close> to \<open>TWO_PI\<close>, which covers the values of
  \<open>atan2\<close> and the angles of the drawing loops. With at least three rows, the row
  index of an impulse is \<open>floor (phi / PI * rows)\<close> clamped into
  \<open>[1, rows - 2]\<close>, for every \<open>phi\<close>.
\<close>

theorem angle_to_index:
  assumes "0 < cols" "cols < 2 ^ 53" "3 \<le> rows"
  shows "(- cols \<le> thetaFloor cols theta \<and> thetaFloor cols theta < 2 * cols \<longrightarrow>
           thetaToIndex cols theta = thetaFloor cols theta mod cols \<and>
           0 \<le> thetaToIndex cols theta \<and> thetaToIndex cols theta < cols) \<and>
         (- TWO_PI \<le> theta \<and> theta \<le> TWO_PI \<longrightarrow>
           - cols \<le> thetaFloor cols theta \<and> thetaFloor cols theta \<le> cols) \<and>
         phiToIndex rows phi = max 1 (min (rows - 2) (phiFloor rows phi)) \<and>
         1 \<le> phiToIndex rows phi \<and> phiToIndex rows phi \<le> rows - 2"
proof -
  have a: "thetaToIndex cols theta = thetaFloor cols theta mod cols \<and>
           0 \<le> thetaToIndex cols theta \<and> thetaToIndex cols theta < cols"
    if "- cols \<le> thetaFloor cols theta" "thetaFloor cols theta < 2 * cols"
  proof -
    have "thetaToIndex cols theta = thetaFloor cols theta mod cols"
      unfolding thetaToIndex_def by (rule wrapTheta_mod[OF assms(1) that])
    then show ?thesis using assms(1) by simp
  qed
  have b: "- cols \<le> thetaFloor cols theta \<and> thetaFloor cols theta \<le> cols"
    if "- TWO_PI \<le> theta" "theta \<le> TWO_PI"
    using thetaFloor_range[OF assms(1,2) that] by simp
  have c: "phiToIndex rows phi = max 1 (min (rows - 2) (phiFloor rows phi)) \<and>
         1 \<le> phiToIndex rows phi \<and> phiToIndex rows phi \<le> rows - 2"
    using assms(3) by (simp add: phiToIndex_def constrain_def max.commute)
  show ?thesis using a b c by blast
qed

lemma index_of_PI: "thetaFloor 256 PI = 128" "phiFloor 128 (PI / 2) = 64"
proof -
  have e: "PI / TWO_PI = 1 / 2" using PI_pos by (simp add: TWO_PI_def)
  have "thetaFloor 256 PI = \<lfloor>fl (fl (1 / 2) * of_int 256)\<rfloor>"
    unfolding thetaFloor_def e ..
  then show "thetaFloor 256 PI = 128" by simp
  have f: "PI / 2 / PI = 1 / 2" using PI_pos by simp
  have "phiFloor 128 (PI / 2) = \<lfloor>fl (fl (1 / 2) * of_int 128)\<rfloor>"
    unfolding phiFloor_def f ..
  then show "phiFloor 128 (PI / 2) = 64" by simp
qed

theorem angle_to_index_witness:
  "(0::int) < 256 \<and> (256::int) < 2 ^ 53 \<and> (3::int) \<le> 128 \<and>
   - TWO_PI \<le> PI \<and> PI \<le> TWO_PI \<and> thetaFloor 256 PI = 128 \<and>
   thetaToIndex 256 PI = 128 \<and> phiToIndex 128 (PI / 2) = 64"
proof -
  have h: "- TWO_PI \<le> PI" "PI \<le> TWO_PI" using PI_pos by (simp_all add: TWO_PI_def)
  show ?thesis
    using angle_to_index[of 256 128 PI "PI / 2"] h
    by (simp add: index_of_PI)
qed

section \<open>What an impulse writes\<close>

lemma neighbourLoop_cells:
  assumes "shaped (heightfieldCols s) (heightfieldRows s) (heightfieldPrevious s)"
    "3 \<le> heightfieldRows s" "0 \<le> ti" "ti < heightfieldCols s"
    "\<forall>(di, dj)\<in>set ds. - 1 \<le> di"
  shows "\<exists>P'. neighbourLoop ti pj v ds s = Done (s\<lparr>heightfieldPrevious := P'\<rparr>) \<and>
           shaped (heightfieldCols s) (heightfieldRows s) P' \<and>
           (\<forall>a b. 0 \<le> a \<longrightarrow> a < heightfieldCols s \<longrightarrow> 0 \<le> b \<longrightarrow> b < heightfieldRows s \<longrightarrow>
              cell P' a b =
                (if hit (heightfieldCols s) (heightfieldRows s) ti pj ds a b then v
                 else cell (heightfieldPrevious s) a b))"
  using assms
proof (induction ds arbitrary: s)
  case Nil
  have "s = s\<lparr>heightfieldPrevious := heightfieldPrevious s\<rparr>" by simp
  then have "neighbourLoop ti pj v [] s = Done (s\<lparr>heightfieldPrevious := heightfieldPrevious s\<rparr>)"
    by simp
  then show ?case using Nil.prems(1) by (intro exI[of _ "heightfieldPrevious s"]) (simp add: hit_def)
next
  case (Cons d ds)
  obtain di dj where d: "d = (di, dj)" by (cases d)
  let ?cols = "heightfieldCols s" and ?rows = "heightfieldRows s" and ?P = "heightfieldPrevious s"
  have rest: "\<forall>(di, dj)\<in>set ds. - 1 \<le> di" using Cons.prems(5) by simp
  show ?case
  proof (cases "di = 0 \<and> dj = 0")
    case True
    have h: "hit ?cols ?rows ti pj (d # ds) a b = hit ?cols ?rows ti pj ds a b" for a b
      using True d by (simp add: hit_def)
    have step: "neighbourLoop ti pj v (d # ds) s = neighbourLoop ti pj v ds s"
      using True d by simp
    show ?thesis
      unfolding step h using Cons.IH[OF Cons.prems(1-4) rest] .
  next
    case False
    let ?i = "(ti + di) mod ?cols" and ?j = "constrain (pj + dj) 1 (?rows - 2)"
    have di: "- 1 \<le> di" using Cons.prems(5) d by simp
    have c: "0 < ?cols" using Cons.prems(3,4) by simp
    have r: "jsRem (ti + di + ?cols) ?cols = ?i"
      using di Cons.prems(3) c by (simp add: jsRem_nonneg)
    have i: "0 \<le> ?i" "?i < ?cols" using c by simp_all
    have j: "0 \<le> ?j" "?j < ?rows"
      using constrain_interior[OF Cons.prems(2), of "pj + dj"] by simp_all
    let ?P1 = "?P[nat ?i := (?P ! nat ?i)[nat ?j := v]]"
    let ?s1 = "s\<lparr>heightfieldPrevious := ?P1\<rparr>"
    have w: "writeCell ?P ?i ?j v = Inr ?P1" using writeCell_shaped[OF Cons.prems(1) i j] .
    have sh1: "shaped ?cols ?rows ?P1" using shaped_update[OF Cons.prems(1)] .
    have step: "neighbourLoop ti pj v (d # ds) s = neighbourLoop ti pj v ds ?s1"
      using False d w r by (auto simp: Let_def)
    from Cons.IH[of ?s1] sh1 Cons.prems(2-4) rest
    obtain P' where run: "neighbourLoop ti pj v ds ?s1 = Done (?s1\<lparr>heightfieldPrevious := P'\<rparr>)"
      and sh': "shaped ?cols ?rows P'"
      and c': "\<forall>a b. 0 \<le> a \<longrightarrow> a < ?cols \<longrightarrow> 0 \<le> b \<longrightarrow> b < ?rows \<longrightarrow>
              cell P' a b = (if hit ?cols ?rows ti pj ds a b then v else cell ?P1 a b)"
      by auto
    have h: "hit ?cols ?rows ti pj (d # ds) a b \<longleftrightarrow>
             (a = ?i \<and> b = ?j) \<or> hit ?cols ?rows ti pj ds a b" for a b
      using False d by (auto simp: hit_def)
    have "\<forall>a b. 0 \<le> a \<longrightarrow> a < ?cols \<longrightarrow> 0 \<le> b \<longrightarrow> b < ?rows \<longrightarrow>
              cell P' a b = (if hit ?cols ?rows ti pj (d # ds) a b then v else cell ?P a b)"
      using c' cell_update[OF Cons.prems(1) i j] by (simp add: h)
    moreover have "neighbourLoop ti pj v (d # ds) s = Done (s\<lparr>heightfieldPrevious := P'\<rparr>)"
      using step run by simp
    ultimately show ?thesis using sh' by blast
  qed
qed

lemma stamp_cells:
  assumes "shaped (heightfieldCols s) (heightfieldRows s) (heightfieldPrevious s)"
    "3 \<le> heightfieldRows s" "0 \<le> ti" "ti < heightfieldCols s"
    "1 \<le> pj" "pj \<le> heightfieldRows s - 2"
  shows "\<exists>P'. stamp strength falloff ti pj s = Done (s\<lparr>heightfieldPrevious := P'\<rparr>) \<and>
           shaped (heightfieldCols s) (heightfieldRows s) P' \<and>
           (\<forall>a b. 0 \<le> a \<longrightarrow> a < heightfieldCols s \<longrightarrow> 0 \<le> b \<longrightarrow> b < heightfieldRows s \<longrightarrow>
              cell P' a b =
                (if hit (heightfieldCols s) (heightfieldRows s) ti pj offsets a b
                 then strength * falloff
                 else if a = ti \<and> b = pj then strength
                 else cell (heightfieldPrevious s) a b))"
proof -
  let ?cols = "heightfieldCols s" and ?rows = "heightfieldRows s" and ?P = "heightfieldPrevious s"
  have j: "0 \<le> pj" "pj < ?rows" using assms(5,6) by simp_all
  let ?P1 = "?P[nat ti := (?P ! nat ti)[nat pj := strength]]"
  let ?s1 = "s\<lparr>heightfieldPrevious := ?P1\<rparr>"
  have w: "writeCell ?P ti pj strength = Inr ?P1"
    using writeCell_shaped[OF assms(1,3,4) j] .
  have sh1: "shaped ?cols ?rows ?P1" using shaped_update[OF assms(1)] .
  have off: "\<forall>(di, dj)\<in>set offsets. - 1 \<le> di" by (simp add: offsets_def)
  from neighbourLoop_cells[of ?s1 ti offsets pj "strength * falloff"] sh1 assms(2-4) off
  obtain P' where
    run: "neighbourLoop ti pj (strength * falloff) offsets ?s1 =
            Done (?s1\<lparr>heightfieldPrevious := P'\<rparr>)"
    and sh': "shaped ?cols ?rows P'"
    and c': "\<forall>a b. 0 \<le> a \<longrightarrow> a < ?cols \<longrightarrow> 0 \<le> b \<longrightarrow> b < ?rows \<longrightarrow>
              cell P' a b = (if hit ?cols ?rows ti pj offsets a b then strength * falloff
                             else cell ?P1 a b)"
    by auto
  have "stamp strength falloff ti pj s = Done (s\<lparr>heightfieldPrevious := P'\<rparr>)"
    using w run by (simp add: stamp_def)
  moreover have "\<forall>a b. 0 \<le> a \<longrightarrow> a < ?cols \<longrightarrow> 0 \<le> b \<longrightarrow> b < ?rows \<longrightarrow>
      cell P' a b = (if hit ?cols ?rows ti pj offsets a b then strength * falloff
                     else if a = ti \<and> b = pj then strength else cell ?P a b)"
    using c' cell_update[OF assms(1,3,4) j] by simp
  ultimately show ?thesis using sh' by blast
qed

text \<open>
  In the top interior row the offset \<open>(0, -1)\<close> is clamped back onto the centre, and
  likewise \<open>(0, 1)\<close> in the bottom interior row.
\<close>

lemma hit_centre_top: "3 \<le> rows \<Longrightarrow> 0 \<le> ti \<Longrightarrow> ti < cols \<Longrightarrow> hit cols rows ti 1 offsets ti 1"
  by (auto simp: hit_def offsets_def constrain_def)

lemma hit_centre_bottom:
  "3 \<le> rows \<Longrightarrow> 0 \<le> ti \<Longrightarrow> ti < cols \<Longrightarrow> hit cols rows ti (rows - 2) offsets ti (rows - 2)"
  by (auto simp: hit_def offsets_def constrain_def)

lemma hit_centre_interior:
  assumes "3 \<le> cols" "0 \<le> ti" "ti < cols" "2 \<le> pj" "pj \<le> rows - 3"
  shows "\<not> hit cols rows ti pj offsets ti pj"
proof -
  have m: "ti mod cols = ti" using assms by simp
  have a: "(ti + 1) mod cols \<noteq> ti"
  proof (cases "ti + 1 < cols")
    case True
    then have "(ti + 1) mod cols = ti + 1" using assms by simp
    then show ?thesis by simp
  next
    case False
    then have "ti + 1 = cols" using assms by simp
    then have "(ti + 1) mod cols = 0" by simp
    then show ?thesis using False assms by simp
  qed
  have b: "(ti - 1) mod cols \<noteq> ti"
  proof (cases "0 < ti")
    case True
    then have "(ti - 1) mod cols = ti - 1" using assms by simp
    then show ?thesis by simp
  next
    case False
    then have z: "ti = 0" using assms by simp
    have "(- 1) mod cols = cols - 1" using assms(1) by (simp add: zmod_minus1)
    then show ?thesis using z assms by simp
  qed
  have c: "constrain (pj - 1) 1 (rows - 2) \<noteq> pj" "constrain (pj + 1) 1 (rows - 2) \<noteq> pj"
    using assms by (simp_all add: constrain_def)
  show ?thesis
    using a b c m by (auto simp: hit_def offsets_def)
qed

text \<open>
  Away from the first and the last interior row (and with at least three columns) the tap
  does what C4 says: it returns, the target cell holds the full strength, the cells that
  the neighbour loop reaches hold 0.7 times the strength, and every other cell of the
  previous buffer is as before.
\<close>

lemma point_impulse_interior:
  assumes "wellShaped s" "3 \<le> heightfieldCols s"
    "thetaToIndex (heightfieldCols s) theta = ti" "phiToIndex (heightfieldRows s) phi = pj"
    "0 \<le> ti" "ti < heightfieldCols s" "2 \<le> pj" "pj \<le> heightfieldRows s - 3"
  shows "\<exists>P'. addHeightfieldImpulse theta phi True s =
            Done (s\<lparr>heightfieldPrevious := P', lastDrawTheta := theta, lastDrawPhi := phi\<rparr>) \<and>
          cell P' ti pj = impulseStrength \<and>
          (\<forall>a b. 0 \<le> a \<longrightarrow> a < heightfieldCols s \<longrightarrow> 0 \<le> b \<longrightarrow> b < heightfieldRows s \<longrightarrow>
             cell P' a b =
               (if hit (heightfieldCols s) (heightfieldRows s) ti pj offsets a b
                then impulseStrength * (7 / 10)
                else if a = ti \<and> b = pj then impulseStrength
                else cell (heightfieldPrevious s) a b))"
proof -
  let ?cols = "heightfieldCols s" and ?rows = "heightfieldRows s"
  have sh: "shaped ?cols ?rows (heightfieldPrevious s)"
    using assms(1) by (simp add: wellShaped_def)
  have r: "3 \<le> ?rows" "1 \<le> pj" "pj \<le> ?rows - 2" using assms(7,8) by simp_all
  from stamp_cells[OF sh r(1) assms(5,6) r(2,3), of impulseStrength "7 / 10"]
  obtain P' where
    run: "stamp impulseStrength (7 / 10) ti pj s = Done (s\<lparr>heightfieldPrevious := P'\<rparr>)"
    and c: "\<forall>a b. 0 \<le> a \<longrightarrow> a < ?cols \<longrightarrow> 0 \<le> b \<longrightarrow> b < ?rows \<longrightarrow>
             cell P' a b =
               (if hit ?cols ?rows ti pj offsets a b then impulseStrength * (7 / 10)
                else if a = ti \<and> b = pj then impulseStrength
                else cell (heightfieldPrevious s) a b)"
    by blast
  have nh: "\<not> hit ?cols ?rows ti pj offsets ti pj"
    by (rule hit_centre_interior[OF assms(2,5,6,7,8)])
  have "cell P' ti pj = impulseStrength"
    using c[rule_format, of ti pj] nh assms(5,6) r by simp
  moreover have "addHeightfieldImpulse theta phi True s =
      Done (s\<lparr>heightfieldPrevious := P', lastDrawTheta := theta, lastDrawPhi := phi\<rparr>)"
    using run assms(3,4) by (simp add: addHeightfieldImpulse_def Let_def)
  ultimately show ?thesis using c by blast
qed

section \<open>The drag from column 0 to column 22\<close>

text \<open>
  The drag from column 0 to column 22 in row 64 of the 256 \<times> 128 grid: the interpolation
  parameter \<open>k / 22\<close>, its product with 22, and the cell of each step.
\<close>

lemma path22_cell0: "pathCell 256 128 0 64 22 64 22 0 = (0, 64)"
  by (simp add: pathCell_def lerp_def wrapTheta_def constrain_def )

lemma path22_t1: "fl (1 / 22) = 3275345183542179 / 72057594037927936"
  by (subst fl_eval[where k = 57]) (simp_all add: roundTiesToEven_def)

lemma path22_m1: "fl (36028797018963969 / 36028797018963968) = 1"
  by (subst fl_eval[where k = 52]) (simp_all add: roundTiesToEven_def)

lemma path22_cell1: "pathCell 256 128 0 64 22 64 22 1 = (1, 64)"
  by (simp add: pathCell_def lerp_def wrapTheta_def constrain_def path22_t1 path22_m1)

lemma path22_t2: "fl (1 / 11) = 3275345183542179 / 36028797018963968"
  by (subst fl_eval[where k = 56]) (simp_all add: roundTiesToEven_def)

lemma path22_m2: "fl (36028797018963969 / 18014398509481984) = 2"
  by (subst fl_eval[where k = 51]) (simp_all add: roundTiesToEven_def)

lemma path22_cell2: "pathCell 256 128 0 64 22 64 22 2 = (2, 64)"
  by (simp add: pathCell_def lerp_def wrapTheta_def constrain_def path22_t2 path22_m2)

lemma path22_t3: "fl (3 / 22) = 1228254443828317 / 9007199254740992"
  by (subst fl_eval[where k = 55]) (simp_all add: roundTiesToEven_def)

lemma path22_m3: "fl (13510798882111487 / 4503599627370496) = 3"
  by (subst fl_eval[where k = 51]) (simp_all add: roundTiesToEven_def)

lemma path22_cell3: "pathCell 256 128 0 64 22 64 22 3 = (3, 64)"
  by (simp add: pathCell_def lerp_def wrapTheta_def constrain_def path22_t3 path22_m3)

lemma path22_t4: "fl (2 / 11) = 3275345183542179 / 18014398509481984"
  by (subst fl_eval[where k = 55]) (simp_all add: roundTiesToEven_def)

lemma path22_m4: "fl (36028797018963969 / 9007199254740992) = 4"
  by (subst fl_eval[where k = 50]) (simp_all add: roundTiesToEven_def)

lemma path22_cell4: "pathCell 256 128 0 64 22 64 22 4 = (4, 64)"
  by (simp add: pathCell_def lerp_def wrapTheta_def constrain_def path22_t4 path22_m4)

lemma path22_t5: "fl (5 / 22) = 8188362958855447 / 36028797018963968"
  by (subst fl_eval[where k = 55]) (simp_all add: roundTiesToEven_def)

lemma path22_m5: "fl (90071992547409917 / 18014398509481984) = 5"
  by (subst fl_eval[where k = 50]) (simp_all add: roundTiesToEven_def)

lemma path22_cell5: "pathCell 256 128 0 64 22 64 22 5 = (5, 64)"
  by (simp add: pathCell_def lerp_def wrapTheta_def constrain_def path22_t5 path22_m5)

lemma path22_t6: "fl (3 / 11) = 1228254443828317 / 4503599627370496"
  by (subst fl_eval[where k = 54]) (simp_all add: roundTiesToEven_def)

lemma path22_m6: "fl (13510798882111487 / 2251799813685248) = 6"
  by (subst fl_eval[where k = 50]) (simp_all add: roundTiesToEven_def)

lemma path22_cell6: "pathCell 256 128 0 64 22 64 22 6 = (6, 64)"
  by (simp add: pathCell_def lerp_def wrapTheta_def constrain_def path22_t6 path22_m6)

lemma path22_t7: "fl (7 / 22) = 5731854071198813 / 18014398509481984"
  by (subst fl_eval[where k = 54]) (simp_all add: roundTiesToEven_def)

lemma path22_m7: "fl (63050394783186943 / 9007199254740992) = 7"
  by (subst fl_eval[where k = 50]) (simp_all add: roundTiesToEven_def)

lemma path22_cell7: "pathCell 256 128 0 64 22 64 22 7 = (7, 64)"
  by (simp add: pathCell_def lerp_def wrapTheta_def constrain_def path22_t7 path22_m7)

lemma path22_t8: "fl (4 / 11) = 3275345183542179 / 9007199254740992"
  by (subst fl_eval[where k = 54]) (simp_all add: roundTiesToEven_def)

lemma path22_m8: "fl (36028797018963969 / 4503599627370496) = 8"
  by (subst fl_eval[where k = 49]) (simp_all add: roundTiesToEven_def)

lemma path22_cell8: "pathCell 256 128 0 64 22 64 22 8 = (8, 64)"
  by (simp add: pathCell_def lerp_def wrapTheta_def constrain_def path22_t8 path22_m8)

lemma path22_t9: "fl (9 / 22) = 7369526662969903 / 18014398509481984"
  by (subst fl_eval[where k = 54]) (simp_all add: roundTiesToEven_def)

lemma path22_m9: "fl (81064793292668933 / 9007199254740992) = 9"
  by (subst fl_eval[where k = 49]) (simp_all add: roundTiesToEven_def)

lemma path22_cell9: "pathCell 256 128 0 64 22 64 22 9 = (9, 64)"
  by (simp add: pathCell_def lerp_def wrapTheta_def constrain_def path22_t9 path22_m9)

lemma path22_t10: "fl (5 / 11) = 8188362958855447 / 18014398509481984"
  by (subst fl_eval[where k = 54]) (simp_all add: roundTiesToEven_def)

lemma path22_m10: "fl (90071992547409917 / 9007199254740992) = 10"
  by (subst fl_eval[where k = 49]) (simp_all add: roundTiesToEven_def)

lemma path22_cell10: "pathCell 256 128 0 64 22 64 22 10 = (10, 64)"
  by (simp add: pathCell_def lerp_def wrapTheta_def constrain_def path22_t10 path22_m10)

lemma path22_t11: "fl (1 / 2) = 1 / 2"
  by (subst fl_eval[where k = 53]) (simp_all add: roundTiesToEven_def)

lemma path22_cell11: "pathCell 256 128 0 64 22 64 22 11 = (11, 64)"
  by (simp add: pathCell_def lerp_def wrapTheta_def constrain_def path22_t11)

lemma path22_t12: "fl (6 / 11) = 1228254443828317 / 2251799813685248"
  by (subst fl_eval[where k = 53]) (simp_all add: roundTiesToEven_def)

lemma path22_m12: "fl (13510798882111487 / 1125899906842624) = 12"
  by (subst fl_eval[where k = 49]) (simp_all add: roundTiesToEven_def)

lemma path22_cell12: "pathCell 256 128 0 64 22 64 22 12 = (12, 64)"
  by (simp add: pathCell_def lerp_def wrapTheta_def constrain_def path22_t12 path22_m12)

lemma path22_t13: "fl (13 / 22) = 5322435923256041 / 9007199254740992"
  by (subst fl_eval[where k = 53]) (simp_all add: roundTiesToEven_def)

lemma path22_m13: "fl (58546795155816451 / 4503599627370496) = 13"
  by (subst fl_eval[where k = 49]) (simp_all add: roundTiesToEven_def)

lemma path22_cell13: "pathCell 256 128 0 64 22 64 22 13 = (13, 64)"
  by (simp add: pathCell_def lerp_def wrapTheta_def constrain_def path22_t13 path22_m13)

lemma path22_t14: "fl (7 / 11) = 5731854071198813 / 9007199254740992"
  by (subst fl_eval[where k = 53]) (simp_all add: roundTiesToEven_def)

lemma path22_m14: "fl (63050394783186943 / 4503599627370496) = 14"
  by (subst fl_eval[where k = 49]) (simp_all add: roundTiesToEven_def)

lemma path22_cell14: "pathCell 256 128 0 64 22 64 22 14 = (14, 64)"
  by (simp add: pathCell_def lerp_def wrapTheta_def constrain_def path22_t14 path22_m14)

lemma path22_t15: "fl (15 / 22) = 6141272219141585 / 9007199254740992"
  by (subst fl_eval[where k = 53]) (simp_all add: roundTiesToEven_def)

lemma path22_m15: "fl (67553994410557435 / 4503599627370496) = 8444249301319679 / 562949953421312"
  by (subst fl_eval[where k = 49]) (simp_all add: roundTiesToEven_def)

lemma path22_r15: "fl (8444249301319679 / 562949953421312) = 8444249301319679 / 562949953421312"
  by (subst fl_eval[where k = 49]) (simp_all add: roundTiesToEven_def)

lemma path22_cell15: "pathCell 256 128 0 64 22 64 22 15 = (14, 64)"
  by (simp add: pathCell_def lerp_def wrapTheta_def constrain_def path22_t15 path22_m15 path22_r15)

lemma path22_t16: "fl (8 / 11) = 3275345183542179 / 4503599627370496"
  by (subst fl_eval[where k = 53]) (simp_all add: roundTiesToEven_def)

lemma path22_m16: "fl (36028797018963969 / 2251799813685248) = 16"
  by (subst fl_eval[where k = 48]) (simp_all add: roundTiesToEven_def)

lemma path22_cell16: "pathCell 256 128 0 64 22 64 22 16 = (16, 64)"
  by (simp add: pathCell_def lerp_def wrapTheta_def constrain_def path22_t16 path22_m16)

lemma path22_t17: "fl (17 / 22) = 3480054257513565 / 4503599627370496"
  by (subst fl_eval[where k = 53]) (simp_all add: roundTiesToEven_def)

lemma path22_m17: "fl (38280596832649215 / 2251799813685248) = 17"
  by (subst fl_eval[where k = 48]) (simp_all add: roundTiesToEven_def)

lemma path22_cell17: "pathCell 256 128 0 64 22 64 22 17 = (17, 64)"
  by (simp add: pathCell_def lerp_def wrapTheta_def constrain_def path22_t17 path22_m17)

lemma path22_t18: "fl (9 / 11) = 7369526662969903 / 9007199254740992"
  by (subst fl_eval[where k = 53]) (simp_all add: roundTiesToEven_def)

lemma path22_m18: "fl (81064793292668933 / 4503599627370496) = 18"
  by (subst fl_eval[where k = 48]) (simp_all add: roundTiesToEven_def)

lemma path22_cell18: "pathCell 256 128 0 64 22 64 22 18 = (18, 64)"
  by (simp add: pathCell_def lerp_def wrapTheta_def constrain_def path22_t18 path22_m18)

lemma path22_t19: "fl (19 / 22) = 7778944810912675 / 9007199254740992"
  by (subst fl_eval[where k = 53]) (simp_all add: roundTiesToEven_def)

lemma path22_m19: "fl (85568392920039425 / 4503599627370496) = 19"
  by (subst fl_eval[where k = 48]) (simp_all add: roundTiesToEven_def)

lemma path22_cell19: "pathCell 256 128 0 64 22 64 22 19 = (19, 64)"
  by (simp add: pathCell_def lerp_def wrapTheta_def constrain_def path22_t19 path22_m19)

lemma path22_t20: "fl (10 / 11) = 8188362958855447 / 9007199254740992"
  by (subst fl_eval[where k = 53]) (simp_all add: roundTiesToEven_def)

lemma path22_m20: "fl (90071992547409917 / 4503599627370496) = 20"
  by (subst fl_eval[where k = 48]) (simp_all add: roundTiesToEven_def)

lemma path22_cell20: "pathCell 256 128 0 64 22 64 22 20 = (20, 64)"
  by (simp add: pathCell_def lerp_def wrapTheta_def constrain_def path22_t20 path22_m20)

lemma path22_t21: "fl (21 / 22) = 2149445276699555 / 2251799813685248"
  by (subst fl_eval[where k = 53]) (simp_all add: roundTiesToEven_def)

lemma path22_m21: "fl (23643898043695105 / 1125899906842624) = 21"
  by (subst fl_eval[where k = 48]) (simp_all add: roundTiesToEven_def)

lemma path22_cell21: "pathCell 256 128 0 64 22 64 22 21 = (21, 64)"
  by (simp add: pathCell_def lerp_def wrapTheta_def constrain_def path22_t21 path22_m21)

lemma path22_cell22: "pathCell 256 128 0 64 22 64 22 22 = (22, 64)"
  by (simp add: pathCell_def lerp_def wrapTheta_def constrain_def )

lemma upto_0_22: "[0 .. 22] = [0, 1, 2, 3, 4, 5, 6, 7, 8, 9, 10, 11, 12, 13, 14, 15, 16, 17, 18, 19, 20, 21, (22::int)]"
  by (simp add: upto_rec1)

lemma fl_quotient_9_16: "fl (9 / 16 / TWO_PI) = 6450931281625491 / 72057594037927936"
  by (subst fl_eval[where k = 56]) (simp_all add: TWO_PI_def PI_def roundTiesToEven_def)

lemma fl_product_9_16: "fl (6450931281625491 / 281474976710656) = 6450931281625491 / 281474976710656"
  by (subst fl_eval[where k = 48]) (simp_all add: roundTiesToEven_def)

lemma index_of_9_16: "thetaFloor 256 (9 / 16) = 22"
proof -
  have "thetaFloor 256 (9 / 16) = \<lfloor>fl (6450931281625491 / 72057594037927936 * of_int 256)\<rfloor>"
    unfolding thetaFloor_def fl_quotient_9_16 ..
  then show ?thesis by (simp add: fl_product_9_16)
qed

text \<open>
  C8 fails in the code as the program runs it. A drag from \<open>theta = 0\<close> to
  \<open>theta = 0.5625\<close> at \<open>phi = PI / 2\<close> goes from index \<open>(0, 64)\<close> to
  index \<open>(22, 64)\<close>, so \<open>steps = 22\<close>. In binary64, \<open>15 / 22 * 22\<close> is
  \<open>14.999999999999998\<close>, whose floor is 14: the centre impulses go to the columns
  \<open>0, \<dots>, 14, 14, 16, \<dots>, 22\<close>. Column 14 gets two of them and column 15 none.
\<close>

theorem path_0_to_22_skips_column_15:
  "thetaToIndex 256 0 = 0 \<and> thetaToIndex 256 (9 / 16) = 22 \<and>
   phiToIndex 128 (PI / 2) = 64 \<and>
   map (\<lambda>k. fst (pathCell 256 128 0 64 22 64 22 k)) [0 .. 22] =
     [0, 1, 2, 3, 4, 5, 6, 7, 8, 9, 10, 11, 12, 13, 14, 14, 16, 17, 18, 19, 20, 21, 22]"
proof -
  have t0: "thetaToIndex 256 0 = 0"
    by (simp add: thetaToIndex_def thetaFloor_def wrapTheta_def)
  have t: "thetaToIndex 256 (9 / 16) = 22"
    by (simp add: thetaToIndex_def index_of_9_16 wrapTheta_def)
  have p: "phiToIndex 128 (PI / 2) = 64"
    by (simp add: phiToIndex_def index_of_PI constrain_def)
  have "map (\<lambda>k. fst (pathCell 256 128 0 64 22 64 22 k)) [0 .. 22] =
     [0, 1, 2, 3, 4, 5, 6, 7, 8, 9, 10, 11, 12, 13, 14, 14, 16, 17, 18, 19, 20, 21, 22]"
    unfolding upto_0_22
    by (simp add: path22_cell0 path22_cell1 path22_cell2 path22_cell3 path22_cell4 path22_cell5 path22_cell6 path22_cell7 path22_cell8 path22_cell9 path22_cell10 path22_cell11 path22_cell12 path22_cell13 path22_cell14 path22_cell15 path22_cell16 path22_cell17 path22_cell18 path22_cell19 path22_cell20 path22_cell21 path22_cell22)
  then show ?thesis using t0 t p by simp
qed

section \<open>Impulses in the top interior row\<close>

lemma setupSketch_declared_fields:
  "heightfieldCols (setupSketch declared) = 256"
  "heightfieldRows (setupSketch declared) = 128"
  "heightfieldPrevious (setupSketch declared) = zeroGrid 256 128"
  "heightfieldCurrent (setupSketch declared) = zeroGrid 256 128"
  "lastDrawTheta (setupSketch declared) = 0"
  "lastDrawPhi (setupSketch declared) = 0"
  unfolding setupSketch_declared by (simp_all add: declared_def)

lemma index_of_zero: "thetaToIndex 256 0 = 0" "phiToIndex 128 0 = 1"
  by (simp_all add: thetaToIndex_def thetaFloor_def wrapTheta_def phiToIndex_def phiFloor_def
      constrain_def)

text \<open>
  C4 fails in the code when the target row is the first or the last interior row. A tap at
  the pole (\<open>theta = 0\<close>, \<open>phi = 0\<close>) on the freshly set up grid has the target
  cell \<open>(0, 1)\<close>. The centre is written with 400, and then the neighbour loop, whose
  offset \<open>(0, -1)\<close> is clamped from row 0 back to row 1, overwrites it with
  \<open>400 * 0.7 = 280\<close>.
\<close>

theorem point_impulse_at_pole_loses_centre:
  "thetaToIndex 256 0 = 0 \<and> phiToIndex 128 0 = 1 \<and> impulseStrength = 400 \<and>
   returned (addHeightfieldImpulse 0 0 True (setupSketch declared)) \<and>
   cell (heightfieldPrevious (state_of (addHeightfieldImpulse 0 0 True (setupSketch declared)))) 0 1
     = 280"
proof -
  let ?s = "setupSketch declared"
  have sh: "shaped (heightfieldCols ?s) (heightfieldRows ?s) (heightfieldPrevious ?s)"
    unfolding setupSketch_declared_fields by (intro shaped_zeroGrid) auto
  from stamp_cells[OF sh, of 0 1 impulseStrength "7 / 10"]
  obtain P' where
    run: "stamp impulseStrength (7 / 10) 0 1 ?s = Done (?s\<lparr>heightfieldPrevious := P'\<rparr>)"
    and c: "\<forall>a b. 0 \<le> a \<longrightarrow> a < heightfieldCols ?s \<longrightarrow> 0 \<le> b \<longrightarrow> b < heightfieldRows ?s \<longrightarrow>
              cell P' a b =
                (if hit (heightfieldCols ?s) (heightfieldRows ?s) 0 1 offsets a b
                 then impulseStrength * (7 / 10)
                 else if a = 0 \<and> b = 1 then impulseStrength
                 else cell (heightfieldPrevious ?s) a b)"
    unfolding setupSketch_declared_fields by auto
  have h: "hit 256 128 0 1 offsets 0 1" by (rule hit_centre_top) simp_all
  have "cell P' 0 1 = impulseStrength * (7 / 10)"
    using c[rule_format, of 0 1] h unfolding setupSketch_declared_fields by simp
  then have v: "cell P' 0 1 = 280" by (simp add: impulseStrength_def)
  have e: "addHeightfieldImpulse 0 0 True ?s =
           Done (?s\<lparr>heightfieldPrevious := P', lastDrawTheta := 0, lastDrawPhi := 0\<rparr>)"
    using run
    by (simp add: addHeightfieldImpulse_def Let_def setupSketch_declared_fields index_of_zero)
  show ?thesis using e v by (simp add: index_of_zero impulseStrength_def)
qed

lemma path_0_to_1_cells:
  "pathCell 256 128 0 1 1 1 1 0 = (0, 1)" "pathCell 256 128 0 1 1 1 1 1 = (1, 1)"
  by (simp_all add: pathCell_def lerp_def wrapTheta_def constrain_def)

lemma fl_3_512: "fl (3 / 512) = 3 / 512"
  by (subst fl_eval[where k = 60]) (simp_all add: roundTiesToEven_def)

lemma fl_3_2: "fl (3 / 2) = 3 / 2"
  by (subst fl_eval[where k = 52]) (simp_all add: roundTiesToEven_def)

lemma index_of_second_column: "thetaToIndex 256 (3 * TWO_PI / 512) = 1"
proof -
  have e: "3 * TWO_PI / 512 / TWO_PI = 3 / 512" using TWO_PI_pos by simp
  have "thetaFloor 256 (3 * TWO_PI / 512) = \<lfloor>fl (fl (3 / 512) * of_int 256)\<rfloor>"
    unfolding thetaFloor_def e ..
  then have "thetaFloor 256 (3 * TWO_PI / 512) = 1" by (simp add: fl_3_512 fl_3_2)
  then show ?thesis by (simp add: thetaToIndex_def wrapTheta_def)
qed

text \<open>
  C10 fails in the code when the path ends in the first or the last interior row. A drag
  on the freshly set up grid from the pole at \<open>theta = 0\<close> to the pole at
  \<open>theta = 3 * TWO_PI / 512\<close> (a binary64 number) has the two distinct, adjacent
  cells \<open>(0, 1)\<close> and \<open>(1, 1)\<close>. The final cell \<open>(1, 1)\<close> is overwritten by
  its own neighbour loop (offset \<open>(0, -1)\<close>, clamped) and ends at
  \<open>400 * 0.6 = 240\<close>, like the first cell: no cell of the path holds the full
  strength.
\<close>

theorem drag_in_top_row_leaves_no_full_strength:
  "thetaToIndex 256 0 = 0 \<and> phiToIndex 128 0 = 1 \<and> thetaToIndex 256 (3 * TWO_PI / 512) = 1 \<and>
   pathCell 256 128 0 1 1 1 1 0 = (0, 1) \<and> pathCell 256 128 0 1 1 1 1 1 = (1, 1) \<and>
   impulseStrength = 400 \<and>
   returned (addHeightfieldImpulse (3 * TWO_PI / 512) 0 False (setupSketch declared)) \<and>
   cell (heightfieldPrevious
          (state_of (addHeightfieldImpulse (3 * TWO_PI / 512) 0 False (setupSketch declared)))) 0 1
     = 240 \<and>
   cell (heightfieldPrevious
          (state_of (addHeightfieldImpulse (3 * TWO_PI / 512) 0 False (setupSketch declared)))) 1 1
     = 240"
proof -
  let ?s = "setupSketch declared"
  have sh: "shaped (heightfieldCols ?s) (heightfieldRows ?s) (heightfieldPrevious ?s)"
    unfolding setupSketch_declared_fields by (intro shaped_zeroGrid) auto
  from stamp_cells[OF sh, of 0 1 impulseStrength "6 / 10"]
  obtain P1 where
    run1: "stamp impulseStrength (6 / 10) 0 1 ?s = Done (?s\<lparr>heightfieldPrevious := P1\<rparr>)"
    and sh1: "shaped 256 128 P1"
    unfolding setupSketch_declared_fields by auto
  let ?s1 = "?s\<lparr>heightfieldPrevious := P1\<rparr>"
  have f1: "heightfieldCols ?s1 = 256" "heightfieldRows ?s1 = 128" "heightfieldPrevious ?s1 = P1"
    by (simp_all add: setupSketch_declared_fields)
  have sh1': "shaped (heightfieldCols ?s1) (heightfieldRows ?s1) (heightfieldPrevious ?s1)"
    unfolding f1 by (rule sh1)
  from stamp_cells[OF sh1', of 1 1 impulseStrength "6 / 10"]
  obtain P2 where
    run2: "stamp impulseStrength (6 / 10) 1 1 ?s1 = Done (?s1\<lparr>heightfieldPrevious := P2\<rparr>)"
    and c: "\<forall>a b. 0 \<le> a \<longrightarrow> a < 256 \<longrightarrow> 0 \<le> b \<longrightarrow> b < 128 \<longrightarrow>
              cell P2 a b =
                (if hit 256 128 1 1 offsets a b then impulseStrength * (6 / 10)
                 else if a = 1 \<and> b = 1 then impulseStrength else cell P1 a b)"
    unfolding f1 by auto
  have h1: "hit 256 128 1 1 offsets 1 1" by (rule hit_centre_top) simp_all
  have h0: "hit 256 128 1 1 offsets 0 1" by (simp add: hit_def offsets_def constrain_def)
  have v1: "cell P2 1 1 = 240" using c[rule_format, of 1 1] h1 by (simp add: impulseStrength_def)
  have v0: "cell P2 0 1 = 240" using c[rule_format, of 0 1] h0 by (simp add: impulseStrength_def)
  have u: "[0 .. 1] = [0, 1::int]" by (simp add: upto_rec1)
  have loop: "pathLoop impulseStrength 0 1 1 1 1 [0 .. 1] ?s = Done (?s1\<lparr>heightfieldPrevious := P2\<rparr>)"
    unfolding u using run1 run2
    by (simp add: setupSketch_declared_fields path_0_to_1_cells)
  have e: "addHeightfieldImpulse (3 * TWO_PI / 512) 0 False ?s =
           Done (?s1\<lparr>heightfieldPrevious := P2, lastDrawTheta := 3 * TWO_PI / 512, lastDrawPhi := 0\<rparr>)"
    using loop
    by (simp add: addHeightfieldImpulse_def Let_def setupSketch_declared_fields index_of_zero
        index_of_second_column)
  show ?thesis
    using e v0 v1
    by (simp add: index_of_zero index_of_second_column path_0_to_1_cells impulseStrength_def)
qed

section \<open>A drag path stays inside the grid\<close>

text \<open>
  The interpolation of a drag path rounds three times, and still the interpolated value
  lies between the two indices: rounding is monotone and leaves integers below
  \<open>2 ^ 53\<close> as they are. So every cell of a path between two columns of the grid is a
  cell of the grid, and the last cell of the path is the target cell.
\<close>

lemma lerp_between:
  assumes "0 \<le> a" "a < 2 ^ 53" "0 \<le> b" "b < 2 ^ 53" "0 \<le> t" "t \<le> 1"
  shows "of_int (min a b) \<le> lerp (of_int a) (of_int b) t \<and>
         lerp (of_int a) (of_int b) t \<le> of_int (max a b)"
proof -
  have ab: "\<bar>a\<bar> < 2 ^ 53" "\<bar>b\<bar> < 2 ^ 53" "\<bar>b - a\<bar> < 2 ^ 53" "\<bar>0::int\<bar> < 2 ^ 53"
    using assms(1-4) by simp_all
  have d: "fl (of_int b - of_int a) = of_int (b - a)"
    using fl_of_int[OF ab(3)] by simp
  show ?thesis
  proof (cases "a \<le> b")
    case True
    then have nn: "0 \<le> real_of_int (b - a)" by simp
    have "real_of_int 0 \<le> t * of_int (b - a)" using assms(5) nn by simp
    moreover have "t * of_int (b - a) \<le> of_int (b - a)"
      by (rule mult_left_le_one_le[OF nn assms(5,6)])
    ultimately have "real_of_int 0 \<le> fl (t * of_int (b - a)) \<and>
        fl (t * of_int (b - a)) \<le> of_int (b - a)"
      by (intro fl_between_ints ab)
    then have "of_int a \<le> fl (t * of_int (b - a)) + of_int a"
      "fl (t * of_int (b - a)) + of_int a \<le> of_int b" by simp_all
    then have "of_int a \<le> fl (fl (t * of_int (b - a)) + of_int a) \<and>
        fl (fl (t * of_int (b - a)) + of_int a) \<le> of_int b"
      by (intro fl_between_ints ab)
    then show ?thesis using True by (simp add: lerp_def d min_def max_def)
  next
    case False
    then have np: "0 \<le> real_of_int (a - b)" by simp
    have "t * of_int (a - b) \<le> of_int (a - b)"
      by (rule mult_left_le_one_le[OF np assms(5,6)])
    then have "real_of_int (b - a) \<le> t * of_int (b - a)" by (simp add: algebra_simps)
    moreover have "0 \<le> t * of_int (a - b)" using assms(5) np by simp
    then have "t * of_int (b - a) \<le> real_of_int 0" by (simp add: algebra_simps)
    ultimately have "real_of_int (b - a) \<le> fl (t * of_int (b - a)) \<and>
        fl (t * of_int (b - a)) \<le> real_of_int 0"
      by (intro fl_between_ints ab)
    then have "of_int b \<le> fl (t * of_int (b - a)) + of_int a"
      "fl (t * of_int (b - a)) + of_int a \<le> of_int a" by simp_all
    then have "of_int b \<le> fl (fl (t * of_int (b - a)) + of_int a) \<and>
        fl (fl (t * of_int (b - a)) + of_int a) \<le> of_int a"
      by (intro fl_between_ints ab)
    then show ?thesis using False by (simp add: lerp_def d min_def max_def)
  qed
qed

lemma lerp_start: "\<bar>a\<bar> < 2 ^ 53 \<Longrightarrow> lerp (of_int a) y 0 = of_int a"
  by (simp add: lerp_def fl_of_int)

lemma lerp_stop:
  assumes "\<bar>b - a\<bar> < 2 ^ 53" "\<bar>b\<bar> < 2 ^ 53"
  shows "lerp (of_int a) (of_int b) 1 = of_int b"
proof -
  have "fl (of_int b - of_int a) = of_int (b - a)" using fl_of_int[OF assms(1)] by simp
  then show ?thesis using fl_of_int[OF assms(1)] fl_of_int[OF assms(2)] by (simp add: lerp_def)
qed

lemma pathParameter_unit:
  assumes "0 \<le> k" "k \<le> max steps 1"
  shows "0 \<le> fl (of_int k / of_int (max steps 1)) \<and> fl (of_int k / of_int (max steps 1)) \<le> 1"
proof -
  have m: "0 < real_of_int (max steps 1)" by simp
  have "real_of_int 0 \<le> of_int k / of_int (max steps 1)" using assms(1) by simp
  moreover have "real_of_int k \<le> real_of_int (max steps 1)" using assms(2) by (simp only: of_int_le_iff)
  then have "of_int k / of_int (max steps 1) \<le> real_of_int 1"
    using m by (simp add: pos_divide_le_eq)
  ultimately have "real_of_int 0 \<le> fl (of_int k / of_int (max steps 1)) \<and>
      fl (of_int k / of_int (max steps 1)) \<le> real_of_int 1"
    by (intro fl_between_ints) simp_all
  then show ?thesis by simp
qed

lemma pathCell_range:
  assumes "0 \<le> lt" "lt < cols" "0 \<le> ti" "ti < cols" "cols < 2 ^ 53" "3 \<le> rows"
    "0 \<le> k" "k \<le> max steps 1"
  shows "0 \<le> fst (pathCell cols rows lt lp ti pj steps k) \<and>
         fst (pathCell cols rows lt lp ti pj steps k) < cols \<and>
         1 \<le> snd (pathCell cols rows lt lp ti pj steps k) \<and>
         snd (pathCell cols rows lt lp ti pj steps k) \<le> rows - 2"
proof -
  let ?t = "fl (of_int k / of_int (max steps 1))"
  let ?x = "lerp (of_int lt) (of_int ti) ?t"
  from pathParameter_unit[OF assms(7,8)] have t: "0 \<le> ?t" "?t \<le> 1" by simp_all
  have b: "lt < 2 ^ 53" "ti < 2 ^ 53" using assms(2,4,5) by simp_all
  from lerp_between[OF assms(1) b(1) assms(3) b(2) t]
  have "of_int (min lt ti) \<le> ?x" "?x \<le> of_int (max lt ti)" by simp_all
  then have "min lt ti \<le> \<lfloor>?x\<rfloor>" "\<lfloor>?x\<rfloor> \<le> max lt ti"
    by (simp_all only: le_floor_iff floor_le_iff)
  then have f: "0 \<le> \<lfloor>?x\<rfloor>" "\<lfloor>?x\<rfloor> < cols" using assms(1-4) by linarith+
  then have "wrapTheta cols \<lfloor>?x\<rfloor> = \<lfloor>?x\<rfloor>" by (simp add: wrapTheta_def)
  then show ?thesis
    using f assms(6) by (simp add: pathCell_def Let_def constrain_def)
qed

lemma pathCell_last:
  assumes "0 \<le> lt" "lt < cols" "0 \<le> ti" "ti < cols" "cols < 2 ^ 53"
    "1 \<le> lp" "lp \<le> rows - 2" "1 \<le> pj" "pj \<le> rows - 2" "rows < 2 ^ 53"
    "steps = max \<bar>ti - lt\<bar> \<bar>pj - lp\<bar>"
  shows "pathCell cols rows lt lp ti pj steps steps = (ti, pj)"
proof -
  have b: "\<bar>lt\<bar> < 2 ^ 53" "\<bar>ti\<bar> < 2 ^ 53" "\<bar>ti - lt\<bar> < 2 ^ 53"
    "\<bar>lp\<bar> < 2 ^ 53" "\<bar>pj\<bar> < 2 ^ 53" "\<bar>pj - lp\<bar> < 2 ^ 53"
    using assms(1-10) by simp_all
  have w: "wrapTheta cols ti = ti" "constrain pj 1 (rows - 2) = pj"
    using assms(3,4,8,9) by (simp_all add: wrapTheta_def constrain_def)
  show ?thesis
  proof (cases "steps = 0")
    case True
    then have e: "lt = ti" "lp = pj" using assms(11) by simp_all
    show ?thesis
      using True w b by (simp add: pathCell_def e lerp_start)
  next
    case False
    then have "1 \<le> steps" using assms(11) by simp
    then have "real_of_int steps / real_of_int (max steps 1) = 1" by simp
    then have t: "fl (of_int steps / of_int (max steps 1)) = 1" by simp
    show ?thesis
      unfolding pathCell_def t
      using w lerp_stop[OF b(3,2)] lerp_stop[OF b(6,5)] by simp
  qed
qed

lemma pathLoop_returns:
  assumes "shaped (heightfieldCols s) (heightfieldRows s) (heightfieldPrevious s)"
    "3 \<le> heightfieldRows s" "heightfieldCols s < 2 ^ 53"
    "0 \<le> lt" "lt < heightfieldCols s" "0 \<le> ti" "ti < heightfieldCols s"
    "\<forall>k\<in>set ks. 0 \<le> k \<and> k \<le> max steps 1"
  shows "\<exists>P'. pathLoop strength lt lp ti pj steps ks s = Done (s\<lparr>heightfieldPrevious := P'\<rparr>) \<and>
           shaped (heightfieldCols s) (heightfieldRows s) P'"
  using assms
proof (induction ks arbitrary: s)
  case Nil
  have "s = s\<lparr>heightfieldPrevious := heightfieldPrevious s\<rparr>" by simp
  then have "pathLoop strength lt lp ti pj steps [] s =
      Done (s\<lparr>heightfieldPrevious := heightfieldPrevious s\<rparr>)" by simp
  then show ?case using Nil.prems(1) by blast
next
  case (Cons k ks)
  let ?cols = "heightfieldCols s" and ?rows = "heightfieldRows s"
  obtain a b where pc: "pathCell ?cols ?rows lt lp ti pj steps k = (a, b)"
    by (cases "pathCell ?cols ?rows lt lp ti pj steps k")
  have k: "0 \<le> k" "k \<le> max steps 1" using Cons.prems(8) by simp_all
  from pathCell_range[OF Cons.prems(4,5,6,7,3,2) k, of lp pj] pc
  have r: "0 \<le> a" "a < ?cols" "1 \<le> b" "b \<le> ?rows - 2" by simp_all
  from stamp_cells[OF Cons.prems(1,2) r, of strength "6 / 10"] obtain P1 where
    st: "stamp strength (6 / 10) a b s = Done (s\<lparr>heightfieldPrevious := P1\<rparr>)"
    and sh1: "shaped ?cols ?rows P1" by blast
  let ?s1 = "s\<lparr>heightfieldPrevious := P1\<rparr>"
  have "\<exists>P'. pathLoop strength lt lp ti pj steps ks ?s1 = Done (?s1\<lparr>heightfieldPrevious := P'\<rparr>) \<and>
           shaped (heightfieldCols ?s1) (heightfieldRows ?s1) P'"
    using Cons.prems sh1 by (intro Cons.IH) simp_all
  then obtain P' where
    r: "pathLoop strength lt lp ti pj steps ks ?s1 = Done (?s1\<lparr>heightfieldPrevious := P'\<rparr>)"
    and sh: "shaped ?cols ?rows P'" by auto
  have "pathLoop strength lt lp ti pj steps (k # ks) s = Done (s\<lparr>heightfieldPrevious := P'\<rparr>)"
    using r pc st by simp
  then show ?case using sh by blast
qed

lemma pathLoop_snoc:
  "pathLoop strength lt lp ti pj steps (ks @ [k]) s =
     (case pathLoop strength lt lp ti pj steps ks s of
        Threw e s' \<Rightarrow> Threw e s'
      | Done s' \<Rightarrow> pathLoop strength lt lp ti pj steps [k] s')"
proof (induction ks arbitrary: s)
  case Nil
  show ?case by simp
next
  case (Cons j js)
  show ?case
  proof (cases "pathCell (heightfieldCols s) (heightfieldRows s) lt lp ti pj steps j")
    case (Pair a b)
    show ?thesis
    proof (cases "stamp strength (6 / 10) a b s")
      case (Done s1)
      then show ?thesis using Pair Cons.IH[of s1] by simp
    next
      case (Threw e s1)
      then show ?thesis using Pair by simp
    qed
  qed
qed

lemma upto_last: "0 \<le> n \<Longrightarrow> [0 .. n] = [0 .. n - 1] @ [n]"
  by (simp add: upto_rec2)

section \<open>What an impulse leaves around its target\<close>

text \<open>
  An impulse at an angle pair whose column index lies in the grid returns. Its last (for
  a tap: its only) centre write and neighbour loop are those of the target cell, so the
  cells that the neighbour loop of the target reaches hold the strength times the
  falloff, 0.7 for a tap and 0.6 for a drag; \<open>Q\<close> is the previous buffer before that
  last centre write.
\<close>

lemma tap_cells:
  assumes "shaped (heightfieldCols s) (heightfieldRows s) (heightfieldPrevious s)"
    "3 \<le> heightfieldRows s"
    "thetaToIndex (heightfieldCols s) theta = ti" "phiToIndex (heightfieldRows s) phi = pj"
    "0 \<le> ti" "ti < heightfieldCols s"
  shows "\<exists>P'. addHeightfieldImpulse theta phi True s =
            Done (s\<lparr>heightfieldPrevious := P', lastDrawTheta := theta, lastDrawPhi := phi\<rparr>) \<and>
          shaped (heightfieldCols s) (heightfieldRows s) P' \<and>
          (\<forall>a b. 0 \<le> a \<longrightarrow> a < heightfieldCols s \<longrightarrow> 0 \<le> b \<longrightarrow> b < heightfieldRows s \<longrightarrow>
             cell P' a b =
               (if hit (heightfieldCols s) (heightfieldRows s) ti pj offsets a b
                then impulseStrength * (7 / 10)
                else if a = ti \<and> b = pj then impulseStrength
                else cell (heightfieldPrevious s) a b))"
proof -
  have pj: "1 \<le> pj" "pj \<le> heightfieldRows s - 2"
    using phiToIndex_interior[OF assms(2), of phi] assms(4) by simp_all
  from stamp_cells[OF assms(1,2,5,6) pj, of impulseStrength "7 / 10"] obtain P' where
    st: "stamp impulseStrength (7 / 10) ti pj s = Done (s\<lparr>heightfieldPrevious := P'\<rparr>)"
    and rest: "shaped (heightfieldCols s) (heightfieldRows s) P'"
      "\<forall>a b. 0 \<le> a \<longrightarrow> a < heightfieldCols s \<longrightarrow> 0 \<le> b \<longrightarrow> b < heightfieldRows s \<longrightarrow>
         cell P' a b =
           (if hit (heightfieldCols s) (heightfieldRows s) ti pj offsets a b
            then impulseStrength * (7 / 10)
            else if a = ti \<and> b = pj then impulseStrength
            else cell (heightfieldPrevious s) a b)" by blast
  have "addHeightfieldImpulse theta phi True s =
          Done (s\<lparr>heightfieldPrevious := P', lastDrawTheta := theta, lastDrawPhi := phi\<rparr>)"
    using st assms(3,4) by (simp add: addHeightfieldImpulse_def Let_def)
  then show ?thesis using rest by blast
qed

lemma drag_cells:
  assumes "shaped (heightfieldCols s) (heightfieldRows s) (heightfieldPrevious s)"
    "3 \<le> heightfieldRows s" "heightfieldCols s < 2 ^ 53" "heightfieldRows s < 2 ^ 53"
    "thetaToIndex (heightfieldCols s) theta = ti" "phiToIndex (heightfieldRows s) phi = pj"
    "0 \<le> ti" "ti < heightfieldCols s"
    "0 \<le> thetaToIndex (heightfieldCols s) (lastDrawTheta s)"
    "thetaToIndex (heightfieldCols s) (lastDrawTheta s) < heightfieldCols s"
  shows "\<exists>Q P'. addHeightfieldImpulse theta phi False s =
            Done (s\<lparr>heightfieldPrevious := P', lastDrawTheta := theta, lastDrawPhi := phi\<rparr>) \<and>
          shaped (heightfieldCols s) (heightfieldRows s) P' \<and>
          (\<forall>a b. 0 \<le> a \<longrightarrow> a < heightfieldCols s \<longrightarrow> 0 \<le> b \<longrightarrow> b < heightfieldRows s \<longrightarrow>
             cell P' a b =
               (if hit (heightfieldCols s) (heightfieldRows s) ti pj offsets a b
                then impulseStrength * (6 / 10)
                else if a = ti \<and> b = pj then impulseStrength
                else cell Q a b))"
proof -
  let ?cols = "heightfieldCols s" and ?rows = "heightfieldRows s"
  let ?lt = "thetaToIndex ?cols (lastDrawTheta s)" and ?lp = "phiToIndex ?rows (lastDrawPhi s)"
  let ?steps = "max \<bar>ti - ?lt\<bar> \<bar>pj - ?lp\<bar>"
  have pj: "1 \<le> pj" "pj \<le> ?rows - 2"
    using phiToIndex_interior[OF assms(2), of phi] assms(6) by simp_all
  have lp: "1 \<le> ?lp" "?lp \<le> ?rows - 2"
    using phiToIndex_interior[OF assms(2), of "lastDrawPhi s"] by simp_all
  have n: "0 \<le> ?steps" by simp
  have ks: "\<forall>k\<in>set [0 .. ?steps - 1]. 0 \<le> k \<and> k \<le> max ?steps 1" by auto
  from pathLoop_returns[OF assms(1,2,3,9,10,7,8) ks, of impulseStrength ?lp pj] obtain Q where
    q: "pathLoop impulseStrength ?lt ?lp ti pj ?steps [0 .. ?steps - 1] s =
          Done (s\<lparr>heightfieldPrevious := Q\<rparr>)"
    and shq: "shaped ?cols ?rows Q" by blast
  let ?s1 = "s\<lparr>heightfieldPrevious := Q\<rparr>"
  have last: "pathCell ?cols ?rows ?lt ?lp ti pj ?steps ?steps = (ti, pj)"
    by (rule pathCell_last[OF assms(9,10,7,8,3) lp pj assms(4) refl])
  have sh1: "shaped (heightfieldCols ?s1) (heightfieldRows ?s1) (heightfieldPrevious ?s1)"
    using shq by simp
  have r1: "3 \<le> heightfieldRows ?s1" "0 \<le> ti" "ti < heightfieldCols ?s1"
    "1 \<le> pj" "pj \<le> heightfieldRows ?s1 - 2"
    using assms(2,7,8) pj by simp_all
  from stamp_cells[OF sh1 r1, of impulseStrength "6 / 10"] obtain P' where
    st: "stamp impulseStrength (6 / 10) ti pj ?s1 = Done (?s1\<lparr>heightfieldPrevious := P'\<rparr>)"
    and shp: "shaped ?cols ?rows P'"
    and cells: "\<forall>a b. 0 \<le> a \<longrightarrow> a < ?cols \<longrightarrow> 0 \<le> b \<longrightarrow> b < ?rows \<longrightarrow>
         cell P' a b =
           (if hit ?cols ?rows ti pj offsets a b then impulseStrength * (6 / 10)
            else if a = ti \<and> b = pj then impulseStrength
            else cell Q a b)" by auto
  have "pathLoop impulseStrength ?lt ?lp ti pj ?steps [0 .. ?steps] s =
          Done (s\<lparr>heightfieldPrevious := P'\<rparr>)"
    unfolding upto_last[OF n] pathLoop_snoc using q last st by simp
  then have "addHeightfieldImpulse theta phi False s =
          Done (s\<lparr>heightfieldPrevious := P', lastDrawTheta := theta, lastDrawPhi := phi\<rparr>)"
    using assms(5,6) by (simp add: addHeightfieldImpulse_def Let_def)
  then show ?thesis using shp cells by blast
qed

section \<open>Impulse before a step\<close>

lemma addHeightfieldImpulse_wellShaped:
  assumes "wellShaped s"
  shows "wellShaped (state_of (addHeightfieldImpulse theta phi isFirstTouch s))"
proof -
  let ?s' = "state_of (addHeightfieldImpulse theta phi isFirstTouch s)"
  from addHeightfieldImpulse_frame[of theta phi isFirstTouch s] obtain P' t p where
    f: "?s' = s\<lparr>heightfieldPrevious := P', lastDrawTheta := t, lastDrawPhi := p\<rparr>" by blast
  have shP: "shaped (heightfieldCols s) (heightfieldRows s) (heightfieldPrevious s)"
    using assms by (simp add: wellShaped_def)
  have "keepsEdges (heightfieldCols s) (heightfieldRows s) (heightfieldPrevious s) P'"
    using addHeightfieldImpulse_edges[OF shP, of theta phi isFirstTouch] f by simp
  then show ?thesis using f assms by (simp add: keepsEdges_def wellShaped_def)
qed

lemma impulse_cells:
  assumes "shaped (heightfieldCols s) (heightfieldRows s) (heightfieldPrevious s)"
    "3 \<le> heightfieldRows s" "0 < heightfieldCols s"
    "heightfieldCols s < 2 ^ 53" "heightfieldRows s < 2 ^ 53"
    "- TWO_PI \<le> theta" "theta \<le> TWO_PI"
    "isFirstTouch \<or> (- TWO_PI \<le> lastDrawTheta s \<and> lastDrawTheta s \<le> TWO_PI)"
    "ti = thetaToIndex (heightfieldCols s) theta" "pj = phiToIndex (heightfieldRows s) phi"
    "w = impulseStrength * (if isFirstTouch then 7 / 10 else 6 / 10)"
  shows "\<exists>Q P'. addHeightfieldImpulse theta phi isFirstTouch s =
            Done (s\<lparr>heightfieldPrevious := P', lastDrawTheta := theta, lastDrawPhi := phi\<rparr>) \<and>
          shaped (heightfieldCols s) (heightfieldRows s) P' \<and>
          (\<forall>a b. 0 \<le> a \<longrightarrow> a < heightfieldCols s \<longrightarrow> 0 \<le> b \<longrightarrow> b < heightfieldRows s \<longrightarrow>
             cell P' a b =
               (if hit (heightfieldCols s) (heightfieldRows s) ti pj offsets a b then w
                else if a = ti \<and> b = pj then impulseStrength
                else cell Q a b))"
proof (cases isFirstTouch)
  case True
  then have e: "isFirstTouch = True" by simp
  have w: "impulseStrength * (7 / 10) = w" using True assms(11) by simp
  have ti: "0 \<le> ti" "ti < heightfieldCols s"
    using thetaToIndex_range[OF assms(3,4,6,7)] assms(9) by simp_all
  from tap_cells[OF assms(1,2) assms(9)[symmetric] assms(10)[symmetric] ti]
  show ?thesis unfolding e w by blast
next
  case False
  then have e: "isFirstTouch = False" by simp
  have w: "impulseStrength * (6 / 10) = w" using False assms(11) by simp
  have ti: "0 \<le> ti" "ti < heightfieldCols s"
    using thetaToIndex_range[OF assms(3,4,6,7)] assms(9) by simp_all
  have l: "- TWO_PI \<le> lastDrawTheta s" "lastDrawTheta s \<le> TWO_PI"
    using False assms(8) by simp_all
  from drag_cells[OF assms(1,2,4,5) assms(9)[symmetric] assms(10)[symmetric] ti
      thetaToIndex_range[OF assms(3,4) l]]
  show ?thesis unfolding e w by blast
qed

lemma neighborSum_around_target:
  assumes "0 < cols" "0 \<le> ti" "ti < cols" "2 \<le> pj" "pj \<le> rows - 3"
    "\<forall>a b. 0 \<le> a \<longrightarrow> a < cols \<longrightarrow> 0 \<le> b \<longrightarrow> b < rows \<longrightarrow>
       hit cols rows ti pj offsets a b \<longrightarrow> cell P a b = w"
  shows "neighborSum cols P ti pj = 8 * w"
proof -
  have m: "ti mod cols = ti" using assms(2,3) by simp
  have r: "0 \<le> (ti - 1) mod cols" "(ti - 1) mod cols < cols"
    "0 \<le> (ti + 1) mod cols" "(ti + 1) mod cols < cols"
    using assms(1) by simp_all
  have h: "hit cols rows ti pj offsets ((ti + di) mod cols) (pj + dj)"
    if "(di, dj) \<in> set offsets" "\<not> (di = 0 \<and> dj = 0)" for di dj
  proof -
    have "- 1 \<le> dj" "dj \<le> 1" using that(1) by (auto simp: offsets_def)
    then have "constrain (pj + dj) 1 (rows - 2) = pj + dj"
      using assms(4,5) by (simp add: constrain_def)
    then show ?thesis using that unfolding hit_def by force
  qed
  have c: "cell P ((ti + di) mod cols) (pj + dj) = w"
    if "(di, dj) \<in> set offsets" "\<not> (di = 0 \<and> dj = 0)" for di dj
  proof -
    have "- 1 \<le> dj" "dj \<le> 1" using that(1) by (auto simp: offsets_def)
    then have "0 \<le> pj + dj" "pj + dj < rows" using assms(4,5) by simp_all
    moreover have "0 \<le> (ti + di) mod cols" "(ti + di) mod cols < cols" using assms(1) by simp_all
    ultimately show ?thesis using assms(6) h[OF that] by blast
  qed
  have "cell P ((ti - 1) mod cols) pj = w" using c[of "- 1" 0] by (simp add: offsets_def)
  moreover have "cell P ((ti + 1) mod cols) pj = w" using c[of 1 0] by (simp add: offsets_def)
  moreover have "cell P ti (pj - 1) = w" using c[of 0 "- 1"] m by (simp add: offsets_def)
  moreover have "cell P ti (pj + 1) = w" using c[of 0 1] m by (simp add: offsets_def)
  moreover have "cell P ((ti - 1) mod cols) (pj - 1) = w"
    using c[of "- 1" "- 1"] by (simp add: offsets_def)
  moreover have "cell P ((ti - 1) mod cols) (pj + 1) = w"
    using c[of "- 1" 1] by (simp add: offsets_def)
  moreover have "cell P ((ti + 1) mod cols) (pj - 1) = w"
    using c[of 1 "- 1"] by (simp add: offsets_def)
  moreover have "cell P ((ti + 1) mod cols) (pj + 1) = w"
    using c[of 1 1] by (simp add: offsets_def)
  ultimately show ?thesis by (simp add: neighborSum_def)
qed

text \<open>
  C5. Let an impulse arrive at an angle \<open>theta\<close> within one turn (for a drag: with the
  last angle within one turn as well), and let \<open>(ti, pj)\<close> be its target cell.

  The impulse returns and writes into the previous buffer only: the current buffer, the
  dimensions and the damping are as before. It does write: every cell that the neighbour
  loop of the target reaches holds \<open>w\<close>, the strength times the falloff, the target
  itself holds the strength unless that loop reaches it too, and rows \<open>0\<close> and
  \<open>rows - 1\<close> are as before.

  The step that follows returns. Its previous buffer is the current buffer from before the
  step, and every interior cell of its current buffer is computed from the previous
  buffer as the impulse left it. At a target away from the first and the last interior
  row all eight neighbours hold \<open>w\<close>, so the new value there is
  \<open>damping * (w - current)\<close>: the impulse is in the result of the step.
\<close>

theorem impulse_visible_to_next_step:
  assumes "wellShaped s" "3 \<le> heightfieldRows s"
    "heightfieldCols s < 2 ^ 53" "heightfieldRows s < 2 ^ 53"
    "- TWO_PI \<le> theta" "theta \<le> TWO_PI"
    "isFirstTouch \<or> (- TWO_PI \<le> lastDrawTheta s \<and> lastDrawTheta s \<le> TWO_PI)"
    "0 \<le> col" "col < heightfieldCols s" "1 \<le> row" "row \<le> heightfieldRows s - 2"
    "ti = thetaToIndex (heightfieldCols s) theta" "pj = phiToIndex (heightfieldRows s) phi"
    "w = impulseStrength * (if isFirstTouch then 7 / 10 else 6 / 10)"
    "s1 = state_of (addHeightfieldImpulse theta phi isFirstTouch s)"
    "s2 = state_of (updateHeightfield s1)"
  shows "returned (addHeightfieldImpulse theta phi isFirstTouch s) \<and>
         heightfieldCurrent s1 = heightfieldCurrent s \<and>
         heightfieldCols s1 = heightfieldCols s \<and> heightfieldRows s1 = heightfieldRows s \<and>
         damping s1 = damping s \<and>
         (\<forall>a b. 0 \<le> a \<and> a < heightfieldCols s \<and> 0 \<le> b \<and> b < heightfieldRows s \<and>
                hit (heightfieldCols s) (heightfieldRows s) ti pj offsets a b \<longrightarrow>
                cell (heightfieldPrevious s1) a b = w) \<and>
         (\<not> hit (heightfieldCols s) (heightfieldRows s) ti pj offsets ti pj \<longrightarrow>
            cell (heightfieldPrevious s1) ti pj = impulseStrength) \<and>
         (\<forall>a. 0 \<le> a \<and> a < heightfieldCols s \<longrightarrow>
            cell (heightfieldPrevious s1) a 0 = cell (heightfieldPrevious s) a 0 \<and>
            cell (heightfieldPrevious s1) a (heightfieldRows s - 1) =
              cell (heightfieldPrevious s) a (heightfieldRows s - 1)) \<and>
         returned (updateHeightfield s1) \<and>
         heightfieldPrevious s2 = heightfieldCurrent s1 \<and>
         cell (heightfieldCurrent s2) col row =
           damping s * (neighborSum (heightfieldCols s) (heightfieldPrevious s1) col row / 8
                        - cell (heightfieldCurrent s) col row) \<and>
         (2 \<le> pj \<and> pj \<le> heightfieldRows s - 3 \<longrightarrow>
            cell (heightfieldCurrent s2) ti pj = damping s * (w - cell (heightfieldCurrent s) ti pj))"
proof -
  let ?cols = "heightfieldCols s" and ?rows = "heightfieldRows s"
  let ?P = "heightfieldPrevious s"
  have cpos: "0 < ?cols" using assms(8,9) by simp
  have shP: "shaped ?cols ?rows ?P" using assms(1) by (simp add: wellShaped_def)
  have ti: "0 \<le> ti" "ti < ?cols"
    using thetaToIndex_range[OF cpos assms(3,5,6)] assms(12) by simp_all
  have pj: "1 \<le> pj" "pj \<le> ?rows - 2"
    using phiToIndex_interior[OF assms(2), of phi] assms(13) by simp_all
  from impulse_cells[OF shP assms(2) cpos assms(3-7) assms(12-14)] obtain Q P1 where
    run: "addHeightfieldImpulse theta phi isFirstTouch s =
            Done (s\<lparr>heightfieldPrevious := P1, lastDrawTheta := theta, lastDrawPhi := phi\<rparr>)"
    and cells: "\<forall>a b. 0 \<le> a \<longrightarrow> a < ?cols \<longrightarrow> 0 \<le> b \<longrightarrow> b < ?rows \<longrightarrow>
             cell P1 a b =
               (if hit ?cols ?rows ti pj offsets a b then w
                else if a = ti \<and> b = pj then impulseStrength
                else cell Q a b)" by blast
  have s1: "s1 = s\<lparr>heightfieldPrevious := P1, lastDrawTheta := theta, lastDrawPhi := phi\<rparr>"
    using run assms(15) by simp
  have f1: "heightfieldPrevious s1 = P1" "heightfieldCurrent s1 = heightfieldCurrent s"
    "heightfieldCols s1 = ?cols" "heightfieldRows s1 = ?rows" "damping s1 = damping s"
    unfolding s1 by simp_all
  have ws1: "wellShaped s1"
    using addHeightfieldImpulse_wellShaped[OF assms(1), of theta phi isFirstTouch] assms(15)
    by simp
  have "keepsEdges ?cols ?rows ?P P1"
    using addHeightfieldImpulse_edges[OF shP, of theta phi isFirstTouch] run by simp
  then have edges: "\<forall>a. 0 \<le> a \<and> a < ?cols \<longrightarrow>
      cell P1 a 0 = cell ?P a 0 \<and> cell P1 a (?rows - 1) = cell ?P a (?rows - 1)"
    using assms(2) by (simp add: keepsEdges_def)
  have written: "\<forall>a b. 0 \<le> a \<and> a < ?cols \<and> 0 \<le> b \<and> b < ?rows \<and>
      hit ?cols ?rows ti pj offsets a b \<longrightarrow> cell P1 a b = w"
    using cells by simp
  have centre: "\<not> hit ?cols ?rows ti pj offsets ti pj \<longrightarrow> cell P1 ti pj = impulseStrength"
    using cells[rule_format, of ti pj] ti pj by simp
  from updateHeightfield_run[OF ws1] obtain new where
    r: "updateHeightfield s1 =
          Done (s1\<lparr>heightfieldPrevious := heightfieldCurrent s1, heightfieldCurrent := new\<rparr>)"
    and c: "\<forall>a b. 0 \<le> a \<longrightarrow> a < heightfieldCols s1 \<longrightarrow> 0 \<le> b \<longrightarrow> b < heightfieldRows s1 \<longrightarrow>
             cell new a b = (if 1 \<le> b \<and> b \<le> heightfieldRows s1 - 2 then waveValue s1 a b else 0)"
    by blast
  have s2: "heightfieldPrevious s2 = heightfieldCurrent s1" "heightfieldCurrent s2 = new"
    using r assms(16) by simp_all
  have "cell new col row = waveValue s1 col row"
    using c[rule_format, of col row] assms(8-11) f1 by simp
  then have v: "cell new col row =
      damping s * (neighborSum ?cols P1 col row / 8 - cell (heightfieldCurrent s) col row)"
    by (simp add: waveValue_def f1 mult.commute)
  have t: "cell new ti pj = damping s * (w - cell (heightfieldCurrent s) ti pj)"
    if "2 \<le> pj" "pj \<le> ?rows - 3"
  proof -
    have hw: "\<forall>a b. 0 \<le> a \<longrightarrow> a < ?cols \<longrightarrow> 0 \<le> b \<longrightarrow> b < ?rows \<longrightarrow>
        hit ?cols ?rows ti pj offsets a b \<longrightarrow> cell P1 a b = w"
      using cells by simp
    have n: "neighborSum ?cols P1 ti pj = 8 * w"
      by (rule neighborSum_around_target[OF cpos ti that hw])
    have "cell new ti pj = waveValue s1 ti pj"
      using c[rule_format, of ti pj] ti pj f1 by simp
    then show ?thesis by (simp add: waveValue_def f1 n mult.commute)
  qed
  show ?thesis
    unfolding f1 s2 using run written centre edges r v t by simp
qed

lemma index_in_smallState: "thetaToIndex 3 0 = 0" "phiToIndex 3 (PI / 2) = 1"
proof -
  show "thetaToIndex 3 0 = 0" by (simp add: thetaToIndex_def thetaFloor_def wrapTheta_def)
  have f: "PI / 2 / PI = 1 / 2" using PI_pos by simp
  have "phiFloor 3 (PI / 2) = \<lfloor>fl (fl (1 / 2) * of_int 3)\<rfloor>"
    unfolding phiFloor_def f ..
  then have "phiFloor 3 (PI / 2) = 1" by (simp add: fl_3_2)
  then show "phiToIndex 3 (PI / 2) = 1" by (simp add: phiToIndex_def constrain_def)
qed

lemma index_in_dragState: "thetaToIndex 8 PI = 4" "phiToIndex 5 (PI / 2) = 2"
proof -
  have e: "PI / TWO_PI = 1 / 2" using PI_pos by (simp add: TWO_PI_def)
  have "thetaFloor 8 PI = \<lfloor>fl (fl (1 / 2) * of_int 8)\<rfloor>"
    unfolding thetaFloor_def e ..
  then have "thetaFloor 8 PI = 4" by simp
  then show "thetaToIndex 8 PI = 4" by (simp add: thetaToIndex_def wrapTheta_def)
  have f: "PI / 2 / PI = 1 / 2" using PI_pos by simp
  have "phiFloor 5 (PI / 2) = \<lfloor>fl (fl (1 / 2) * of_int 5)\<rfloor>"
    unfolding phiFloor_def f ..
  then have "phiFloor 5 (PI / 2) = 2" by (simp add: fl_five_halves)
  then show "phiToIndex 5 (PI / 2) = 2" by (simp add: phiToIndex_def constrain_def)
qed

text \<open>
  Two runs of the theorem. A tap at \<open>theta = 0\<close>, \<open>phi = PI / 2\<close> on the small
  state has the target \<open>(0, 1)\<close>; it leaves 280 in the cells \<open>(1, 1)\<close> and
  \<open>(2, 1)\<close>, and the step computes \<open>0.5 * ((280 + 280) / 8 - 1) = 34.5\<close> at
  \<open>(0, 1)\<close>. A drag on the 8 \<times> 5 grid from the angles \<open>(0, 0)\<close> to
  \<open>(PI, PI / 2)\<close> ends at the target \<open>(4, 2)\<close>, and the step computes
  \<open>1 * (240 - 0)\<close> there.
\<close>

theorem impulse_visible_to_next_step_witness:
  "wellShaped smallState \<and> thetaToIndex 3 0 = 0 \<and> phiToIndex 3 (PI / 2) = 1 \<and>
   returned (addHeightfieldImpulse 0 (PI / 2) True smallState) \<and>
   cell (heightfieldPrevious (state_of (addHeightfieldImpulse 0 (PI / 2) True smallState))) 1 1
     = 280 \<and>
   cell (heightfieldPrevious (state_of (addHeightfieldImpulse 0 (PI / 2) True smallState))) 2 1
     = 280 \<and>
   cell (heightfieldCurrent (state_of (updateHeightfield
          (state_of (addHeightfieldImpulse 0 (PI / 2) True smallState))))) 0 1 = 69 / 2 \<and>
   wellShaped dragState \<and> thetaToIndex 8 PI = 4 \<and> phiToIndex 5 (PI / 2) = 2 \<and>
   returned (addHeightfieldImpulse PI (PI / 2) False dragState) \<and>
   cell (heightfieldCurrent (state_of (updateHeightfield
          (state_of (addHeightfieldImpulse PI (PI / 2) False dragState))))) 4 2 = 240"
proof -
  let ?s1 = "state_of (addHeightfieldImpulse 0 (PI / 2) True smallState)"
  let ?s2 = "state_of (updateHeightfield ?s1)"
  let ?P1 = "heightfieldPrevious ?s1"
  have ws: "wellShaped smallState" by (simp add: smallState_def wellShaped_def shaped_def)
  have f: "heightfieldCols smallState = 3" "heightfieldRows smallState = 3"
    "damping smallState = 1 / 2"
    "heightfieldCurrent smallState = [[0, 1, 0], [0, 2, 0], [0, 3, 0]]"
    "heightfieldPrevious smallState = [[0, 4, 0], [0, 5, 0], [0, 6, 0]]"
    by (simp_all add: smallState_def)
  have h: "3 \<le> heightfieldRows smallState"
    "heightfieldCols smallState < 2 ^ 53" "heightfieldRows smallState < 2 ^ 53"
    "- TWO_PI \<le> 0" "0 \<le> TWO_PI"
    "True \<or> (- TWO_PI \<le> lastDrawTheta smallState \<and> lastDrawTheta smallState \<le> TWO_PI)"
    "(0::int) \<le> 0" "0 < heightfieldCols smallState"
    "(1::int) \<le> 1" "1 \<le> heightfieldRows smallState - 2"
    "0 = thetaToIndex (heightfieldCols smallState) 0"
    "1 = phiToIndex (heightfieldRows smallState) (PI / 2)"
    "280 = impulseStrength * (if True then 7 / 10 else 6 / 10)"
    using TWO_PI_pos by (simp_all add: f index_in_smallState impulseStrength_def)
  note T = impulse_visible_to_next_step[OF ws h refl refl, unfolded f]
  have h1: "hit 3 3 0 1 offsets 1 1" "hit 3 3 0 1 offsets 2 1"
    by (simp_all add: hit_def offsets_def constrain_def)
  from T have ret: "returned (addHeightfieldImpulse 0 (PI / 2) True smallState)" by blast
  from T have wr: "\<forall>a b. 0 \<le> a \<and> a < 3 \<and> 0 \<le> b \<and> b < 3 \<and> hit 3 3 0 1 offsets a b \<longrightarrow>
      cell ?P1 a b = 280" by blast
  from T have ed: "\<forall>a. 0 \<le> a \<and> a < 3 \<longrightarrow>
      cell ?P1 a 0 = cell [[0, 4, 0], [0, 5, 0], [0, 6, 0]] a 0 \<and>
      cell ?P1 a (3 - 1) = cell [[0, 4, 0], [0, 5, 0], [0, 6, 0]] a (3 - 1)" by blast
  from T have v: "cell (heightfieldCurrent ?s2) 0 1 =
      1 / 2 * (neighborSum 3 ?P1 0 1 / 8 - cell [[0, 1, 0], [0, 2, 0], [0, 3, 0]] 0 1)" by blast
  have c: "cell ?P1 1 1 = 280" "cell ?P1 2 1 = 280"
    using wr[rule_format, of 1 1] wr[rule_format, of 2 1] h1 by simp_all
  have e0: "cell ?P1 0 0 = 0" "cell ?P1 0 2 = 0" using ed[rule_format, of 0] by simp_all
  have e1: "cell ?P1 1 0 = 0" "cell ?P1 1 2 = 0" using ed[rule_format, of 1] by simp_all
  have e2: "cell ?P1 2 0 = 0" "cell ?P1 2 2 = 0" using ed[rule_format, of 2] by simp_all
  have "neighborSum 3 ?P1 0 1 = 560"
    using c e0 e1 e2 by (simp add: neighborSum_def)
  then have val: "cell (heightfieldCurrent ?s2) 0 1 = 69 / 2" using v by simp
  let ?d1 = "state_of (addHeightfieldImpulse PI (PI / 2) False dragState)"
  let ?d2 = "state_of (updateHeightfield ?d1)"
  have wd: "wellShaped dragState"
    by (simp add: dragState_def wellShaped_def shaped_zeroGrid)
  have g: "heightfieldCols dragState = 8" "heightfieldRows dragState = 5"
    "damping dragState = 1" "lastDrawTheta dragState = 0"
    "heightfieldCurrent dragState = zeroGrid 8 5"
    by (simp_all add: dragState_def)
  have k: "3 \<le> heightfieldRows dragState"
    "heightfieldCols dragState < 2 ^ 53" "heightfieldRows dragState < 2 ^ 53"
    "- TWO_PI \<le> PI" "PI \<le> TWO_PI"
    "False \<or> (- TWO_PI \<le> lastDrawTheta dragState \<and> lastDrawTheta dragState \<le> TWO_PI)"
    "(0::int) \<le> 4" "4 < heightfieldCols dragState"
    "(1::int) \<le> 2" "2 \<le> heightfieldRows dragState - 2"
    "4 = thetaToIndex (heightfieldCols dragState) PI"
    "2 = phiToIndex (heightfieldRows dragState) (PI / 2)"
    "240 = impulseStrength * (if False then 7 / 10 else 6 / 10)"
    using PI_pos by (simp_all add: g index_in_dragState impulseStrength_def TWO_PI_def)
  note D = impulse_visible_to_next_step[OF wd k refl refl, unfolded g]
  from D have retd: "returned (addHeightfieldImpulse PI (PI / 2) False dragState)" by blast
  from D have "(2::int) \<le> 2 \<and> (2::int) \<le> 5 - 3 \<longrightarrow>
      cell (heightfieldCurrent ?d2) 4 2 = 1 * (240 - cell (zeroGrid 8 5) 4 2)" by blast
  then have vald: "cell (heightfieldCurrent ?d2) 4 2 = 240" by (simp add: zeroGrid_def)
  show ?thesis
    using ws ret c val wd retd vald by (simp add: index_in_smallState index_in_dragState)
qed

section \<open>Determinism\<close>

lemma core_update [simp]:
  "core (s\<lparr>heightfieldPrevious := P\<rparr>) = (core s)\<lparr>heightfieldPrevious := P\<rparr>"
  "core (s\<lparr>heightfieldCurrent := C\<rparr>) = (core s)\<lparr>heightfieldCurrent := C\<rparr>"
  "core (s\<lparr>lastDrawTheta := t\<rparr>) = (core s)\<lparr>lastDrawTheta := t\<rparr>"
  "core (s\<lparr>lastDrawPhi := p\<rparr>) = (core s)\<lparr>lastDrawPhi := p\<rparr>"
  by (simp_all add: core_def)

lemma core_fields [simp]:
  "heightfieldCols (core s) = heightfieldCols s"
  "heightfieldRows (core s) = heightfieldRows s"
  "heightfieldCurrent (core s) = heightfieldCurrent s"
  "heightfieldPrevious (core s) = heightfieldPrevious s"
  "damping (core s) = damping s"
  "lastDrawTheta (core s) = lastDrawTheta s"
  "lastDrawPhi (core s) = lastDrawPhi s"
  by (simp_all add: core_def)




























end
